theory Spec2Isabelle
  imports Main "HOL-Library.Word"
begin

text \<open>
  A model of \<^verbatim>\<open>unpyc3.py\<close>, the decompiler for the bytecode of Python 3.2: the decoding
  of instructions and the addresses of a code object, the pass \<^verbatim>\<open>find_else\<close>, the
  evaluation stack, the expression nodes with their rendering, and the handlers of the
  suite decompiler for unpacking assignments, \<^verbatim>\<open>raise\<close> and short-circuit conditions.
  Python integers are \<open>int\<close>, lists are lists with the last element at the end,
  dictionaries are association lists with distinct keys, None is \<open>None\<close>.
\<close>

section \<open>Exceptions and the opcode tables\<close>

text \<open>
  The module \<^verbatim>\<open>unpyc3.py\<close> raises no exception class of its own; what its code can
  raise are the built-in exceptions of Python. Every function of the model that can
  raise returns \<open>error + 'a\<close>, with \<open>Inl\<close> for the exception.
\<close>

datatype error =
  IndexError | KeyError | TypeError | AttributeError | ValueError | NameError | RecursionError

definition ebind :: "error + 'a \<Rightarrow> ('a \<Rightarrow> error + 'b) \<Rightarrow> error + 'b" where
  "ebind m f = (case m of Inl e \<Rightarrow> Inl e | Inr x \<Rightarrow> f x)"

fun efoldl :: "('s \<Rightarrow> 'a \<Rightarrow> error + 's) \<Rightarrow> 's \<Rightarrow> 'a list \<Rightarrow> error + 's" where
  "efoldl f s [] = Inr s"
| "efoldl f s (x # xs) = (case f s x of Inl e \<Rightarrow> Inl e | Inr s' \<Rightarrow> efoldl f s' xs)"

text \<open>
  The opcode numbers come from the standard library (\<^verbatim>\<open>from opcode import opname, opmap,
  HAVE_ARGUMENT, cmp_op\<close> and \<^verbatim>\<open>dis.hasjrel\<close>, \<^verbatim>\<open>dis.hasjabs\<close>), which is not part of
  the repository. They are a parameter of the model: \<open>opmap\<close> gives the number of an
  opcode name, as the loop \<^verbatim>\<open>for name, val in opmap.items(): globals()[name] = val\<close>
  reads it.
\<close>

record opcode_module =
  opmap :: "string \<Rightarrow> int"
  HAVE_ARGUMENT :: int
  hasjrel :: "int list"
  hasjabs :: "int list"

definition stmt_opcodes :: "opcode_module \<Rightarrow> int set" where
  "stmt_opcodes T = opmap T ` {
     ''SETUP_LOOP'', ''BREAK_LOOP'', ''CONTINUE_LOOP'',
     ''SETUP_FINALLY'', ''END_FINALLY'',
     ''SETUP_EXCEPT'', ''POP_EXCEPT'',
     ''SETUP_WITH'',
     ''POP_BLOCK'',
     ''STORE_FAST'', ''DELETE_FAST'',
     ''STORE_DEREF'', ''DELETE_DEREF'',
     ''STORE_GLOBAL'', ''DELETE_GLOBAL'',
     ''STORE_NAME'', ''DELETE_NAME'',
     ''STORE_ATTR'', ''DELETE_ATTR'',
     ''IMPORT_NAME'', ''IMPORT_FROM'',
     ''RETURN_VALUE'', ''YIELD_VALUE'',
     ''RAISE_VARARGS'',
     ''POP_TOP''}"

definition pop_jump_if_opcodes :: "opcode_module \<Rightarrow> int list" where
  "pop_jump_if_opcodes T = [opmap T ''POP_JUMP_IF_TRUE'', opmap T ''POP_JUMP_IF_FALSE'']"

definition else_jump_opcodes :: "opcode_module \<Rightarrow> int list" where
  "else_jump_opcodes T =
     [opmap T ''JUMP_FORWARD'', opmap T ''RETURN_VALUE'', opmap T ''JUMP_ABSOLUTE'',
      opmap T ''SETUP_LOOP'', opmap T ''RAISE_VARARGS'']"

section \<open>Instructions, code objects and addresses\<close>

text \<open>
  \<^verbatim>\<open>code_walker\<close> decodes the byte string \<^verbatim>\<open>co_code\<close>: an opcode below
  \<^verbatim>\<open>HAVE_ARGUMENT\<close> takes one byte, any other takes three, the argument being the two
  following bytes, low byte first. Reading an argument byte past the end raises
  IndexError. The first argument of the model is the position \<^verbatim>\<open>i\<close> of the loop.
\<close>

type_synonym instr = "int \<times> int \<times> int option"

fun code_walker :: "opcode_module \<Rightarrow> int \<Rightarrow> 8 word list \<Rightarrow> error + instr list" where
  "code_walker T i [] = Inr []"
| "code_walker T i (opc # rest) =
     (if uint opc \<ge> HAVE_ARGUMENT T then
        (case rest of
           lo # hi # rest' \<Rightarrow>
             (case code_walker T (i + 3) rest' of
                Inl e \<Rightarrow> Inl e
              | Inr xs \<Rightarrow> Inr ((i, uint opc, Some (uint lo + push_bit 8 (uint hi))) # xs))
         | _ \<Rightarrow> Inl IndexError)
      else
        (case code_walker T (i + 1) rest of
           Inl e \<Rightarrow> Inl e
         | Inr xs \<Rightarrow> Inr ((i, uint opc, None) # xs)))"

text \<open>
  Of a \<^verbatim>\<open>Code\<close> object the model keeps the instruction sequence, the dictionary from
  byte position to instruction index and the set \<^verbatim>\<open>else_jumps\<close>; the name tables play no
  part in the operations modelled here. \<open>code_id\<close> is the identity of the object:
  \<^verbatim>\<open>Code\<close> defines no \<^verbatim>\<open>__eq__\<close>, so \<^verbatim>\<open>self.code == other.code\<close> compares
  identities. \<open>else_jumps\<close> is \<open>None\<close> until \<^verbatim>\<open>find_else\<close> has set the attribute.
  Its members are addresses of the code object itself, and \<^verbatim>\<open>Address.__eq__\<close> and
  \<^verbatim>\<open>__hash__\<close> look at the code object and the index only, so the set is kept as the
  set of their indices.
\<close>

record Code =
  code_id :: nat
  instr_seq :: "instr list"
  instr_map :: "(int \<times> int) list"
  else_jumps :: "int set option"

record Address =
  code :: Code
  index :: int
  addr :: int
  opcode :: int
  arg :: "int option"

text \<open>
  \<^verbatim>\<open>Address.__init__\<close> reads \<^verbatim>\<open>code.instr_seq[instr_index]\<close>: a Python list lookup,
  where a negative index counts from the end and an index out of range raises.
\<close>

definition Address_init :: "Code \<Rightarrow> int \<Rightarrow> error + Address" where
  "Address_init c i =
     (let n = int (length (instr_seq c)); j = (if i < 0 then n + i else i) in
      if 0 \<le> j \<and> j < n then
        (case instr_seq c ! nat j of
           (a, opc, ar) \<Rightarrow> Inr \<lparr>code = c, index = i, addr = a, opcode = opc, arg = ar\<rparr>)
      else Inl IndexError)"

text \<open>\<^verbatim>\<open>Code.__getitem__\<close>: no \<^verbatim>\<open>return\<close> is reached out of range, so the value is None.\<close>

definition Code_getitem :: "Code \<Rightarrow> int \<Rightarrow> error + Address option" where
  "Code_getitem c instr_index =
     (if 0 \<le> instr_index \<and> instr_index < int (length (instr_seq c)) then
        ebind (Address_init c instr_index) (\<lambda>a. Inr (Some a))
      else Inr None)"

text \<open>\<^verbatim>\<open>Code.address\<close>: \<^verbatim>\<open>self[self.instr_map[addr]]\<close>; a missing key raises KeyError.\<close>

definition Code_address :: "Code \<Rightarrow> int \<Rightarrow> error + Address option" where
  "Code_address c a =
     (case map_of (instr_map c) a of None \<Rightarrow> Inl KeyError | Some i \<Rightarrow> Code_getitem c i)"

text \<open>\<^verbatim>\<open>Address.__getitem__\<close>: \<^verbatim>\<open>self.code[self.index + index]\<close>.\<close>

definition Address_getitem :: "Address \<Rightarrow> int \<Rightarrow> error + Address option" where
  "Address_getitem a k = Code_getitem (code a) (index a + k)"

text \<open>\<^verbatim>\<open>Address.__add__\<close>: \<^verbatim>\<open>self.code.address(self.addr + delta)\<close>.\<close>

definition Address_add :: "Address \<Rightarrow> int \<Rightarrow> error + Address option" where
  "Address_add a delta = Code_address (code a) (addr a + delta)"

text \<open>
  \<^verbatim>\<open>Address.jump\<close>. In \<^verbatim>\<open>self[1] + self.arg\<close> the left operand is None after the last
  instruction, and adding to None raises TypeError, as adding the argument None to a
  position does. \<^verbatim>\<open>instr_map[None]\<close> raises KeyError. An opcode that is no jump falls
  off the end of the method.
\<close>

definition Address_jump :: "opcode_module \<Rightarrow> Address \<Rightarrow> error + Address option" where
  "Address_jump T a =
     (if opcode a \<in> set (hasjrel T) then
        ebind (Address_getitem a 1) (\<lambda>s.
          case s of
            None \<Rightarrow> Inl TypeError
          | Some s \<Rightarrow> (case arg a of None \<Rightarrow> Inl TypeError | Some k \<Rightarrow> Address_add s k))
      else if opcode a \<in> set (hasjabs T) then
        (case arg a of None \<Rightarrow> Inl KeyError | Some p \<Rightarrow> Code_address (code a) p)
      else Inr None)"

text \<open>
  Python dictionaries: \<^verbatim>\<open>d[k] = v\<close> replaces the value of a key that is present and
  appends the key otherwise, so a replaced value is no longer among \<^verbatim>\<open>d.values()\<close>.
\<close>

fun dict_setitem :: "('k \<times> 'v) list \<Rightarrow> 'k \<Rightarrow> 'v \<Rightarrow> ('k \<times> 'v) list" where
  "dict_setitem [] k v = [(k, v)]"
| "dict_setitem ((k', v') # d) k v =
     (if k' = k then (k, v) # d else (k', v') # dict_setitem d k v)"

definition dict_values :: "('k \<times> 'v) list \<Rightarrow> 'v set" where
  "dict_values d = snd ` set d"

text \<open>
  The dictionary comprehension \<^verbatim>\<open>{addr: i for i, (addr, _) in enumerate(self.instr_seq)}\<close>.
\<close>

definition make_instr_map :: "instr list \<Rightarrow> (int \<times> int) list" where
  "make_instr_map s =
     foldl (\<lambda>d (i, x). dict_setitem d (fst x) (int i)) [] (zip [0..<length s] s)"

text \<open>
  \<^verbatim>\<open>Code.find_else\<close>. The dictionary \<^verbatim>\<open>jumps\<close> is keyed by addresses of the code
  object; keys and values are kept as instruction indices. One step of the loop
  \<^verbatim>\<open>for addr in self\<close> takes the state \<open>(jumps, last_jump)\<close> and the index of the
  address. In the first test \<^verbatim>\<open>jump_addr[-1].opcode\<close> is read before
  \<^verbatim>\<open>jump_addr.opcode\<close>, and raises when there is no instruction before the target.
\<close>

definition find_else_step ::
  "opcode_module \<Rightarrow> Code \<Rightarrow> (int \<times> int) list \<times> int option \<Rightarrow> nat
     \<Rightarrow> error + ((int \<times> int) list \<times> int option)" where
  "find_else_step T c st i =
     (case st of (jumps, last_jump) \<Rightarrow>
      ebind (Address_init c (int i)) (\<lambda>a.
        if opcode a \<in> set (pop_jump_if_opcodes T) then
          (case arg a of
             None \<Rightarrow> Inl KeyError
           | Some p \<Rightarrow>
               ebind (Code_address c p) (\<lambda>j.
                 case j of
                   None \<Rightarrow> Inl TypeError
                 | Some jump_addr \<Rightarrow>
                     ebind (Address_getitem jump_addr (- 1)) (\<lambda>b.
                       case b of
                         None \<Rightarrow> Inl AttributeError
                       | Some prev \<Rightarrow>
                           if opcode prev \<in> set (else_jump_opcodes T)
                              \<or> opcode jump_addr = opmap T ''FOR_ITER''
                           then Inr (dict_setitem jumps (index jump_addr) (index a),
                                     Some (index a))
                           else Inr (jumps, last_jump))))
        else if opcode a = opmap T ''JUMP_ABSOLUTE'' then
          (case arg a of
             None \<Rightarrow> Inl KeyError
           | Some p \<Rightarrow>
               ebind (Code_address c p) (\<lambda>j.
                 case j of
                   None \<Rightarrow> Inr (jumps, last_jump)
                 | Some jump_addr \<Rightarrow>
                     (case map_of jumps (index jump_addr) of
                        None \<Rightarrow> Inr (jumps, last_jump)
                      | Some v \<Rightarrow> Inr (dict_setitem jumps (index a) v, last_jump))))
        else if opcode a \<in> stmt_opcodes T \<and> last_jump \<noteq> None then
          Inr (dict_setitem jumps (index a) (the last_jump), last_jump)
        else Inr (jumps, last_jump)))"

definition find_else :: "opcode_module \<Rightarrow> Code \<Rightarrow> error + int set" where
  "find_else T c =
     ebind (efoldl (find_else_step T c) ([], None) [0..<length (instr_seq c)])
       (\<lambda>st. Inr (dict_values (fst st)))"

text \<open>
  \<^verbatim>\<open>Code.__init__\<close>, for the fields kept: decode, build the position map, run
  \<^verbatim>\<open>find_else\<close>.
\<close>

definition Code_init :: "opcode_module \<Rightarrow> nat \<Rightarrow> 8 word list \<Rightarrow> error + Code" where
  "Code_init T cid co_code =
     ebind (code_walker T 0 co_code) (\<lambda>s.
       let c = \<lparr>code_id = cid, instr_seq = s, instr_map = make_instr_map s,
                else_jumps = None\<rparr>
       in ebind (find_else T c) (\<lambda>e. Inr (c\<lparr>else_jumps := Some e\<rparr>)))"

text \<open>
  The position dictionary of a code object is the one \<^verbatim>\<open>__init__\<close> built from its
  instruction sequence. \<^verbatim>\<open>change_instr\<close>, the only method that writes to
  \<^verbatim>\<open>instr_seq\<close>, keeps the positions.
\<close>

definition instr_map_built :: "Code \<Rightarrow> bool" where
  "instr_map_built c = (instr_map c = make_instr_map (instr_seq c))"

text \<open>
  The test that \<^verbatim>\<open>find_else\<close> makes on a conditional jump, as a predicate on the index
  of the jump: the instruction is a \<^verbatim>\<open>POP_JUMP_IF_TRUE\<close> or \<^verbatim>\<open>POP_JUMP_IF_FALSE\<close>,
  and the instruction before its target has an opcode of \<^verbatim>\<open>else_jump_opcodes\<close> or
  the target is a \<^verbatim>\<open>FOR_ITER\<close>.
\<close>

definition else_jump_test :: "opcode_module \<Rightarrow> Code \<Rightarrow> int \<Rightarrow> bool" where
  "else_jump_test T c i =
     (case Address_init c i of
        Inl e \<Rightarrow> False
      | Inr a \<Rightarrow>
          opcode a \<in> set (pop_jump_if_opcodes T) \<and>
          (case arg a of
             None \<Rightarrow> False
           | Some p \<Rightarrow>
               (case Code_address c p of
                  Inr (Some jump_addr) \<Rightarrow>
                    (case Address_getitem jump_addr (- 1) of
                       Inr (Some prev) \<Rightarrow>
                         opcode prev \<in> set (else_jump_opcodes T)
                         \<or> opcode jump_addr = opmap T ''FOR_ITER''
                     | _ \<Rightarrow> False)
                | _ \<Rightarrow> False)))"

text \<open>
  The invariant of the loop of \<^verbatim>\<open>find_else\<close>: every value of the dictionary
  \<^verbatim>\<open>jumps\<close>, and \<^verbatim>\<open>last_jump\<close> when it is set, is the index of a conditional jump
  that passed the test.
\<close>

definition jumps_ok :: "opcode_module \<Rightarrow> Code \<Rightarrow> (int \<times> int) list \<times> int option \<Rightarrow> bool" where
  "jumps_ok T c st =
     ((\<forall>v \<in> dict_values (fst st). 0 \<le> v \<and> v < int (length (instr_seq c)) \<and> else_jump_test T c v)
      \<and> (\<forall>v. snd st = Some v \<longrightarrow> 0 \<le> v \<and> v < int (length (instr_seq c)) \<and> else_jump_test T c v))"

text \<open>
  The indices of the instructions that the conditional jumps of a code object jump to:
  what \<^verbatim>\<open>self.address(arg)\<close> gives for each \<^verbatim>\<open>POP_JUMP_IF_TRUE\<close> and
  \<^verbatim>\<open>POP_JUMP_IF_FALSE\<close>.
\<close>

definition cond_jump_targets :: "opcode_module \<Rightarrow> Code \<Rightarrow> int list" where
  "cond_jump_targets T c =
     concat (map (\<lambda>(a, opc, ar).
        if opc \<in> set (pop_jump_if_opcodes T) then
          (case ar of
             None \<Rightarrow> []
           | Some p \<Rightarrow> (case map_of (instr_map c) p of None \<Rightarrow> [] | Some i \<Rightarrow> [i]))
        else []) (instr_seq c))"

section \<open>Objects\<close>

text \<open>
  The values of \<^verbatim>\<open>co_consts\<close> that the model knows: None, integers, strings and tuples
  of these. On them the structural equality is Python's \<^verbatim>\<open>==\<close>.
\<close>

datatype pyval = VNone | VInt int | VStr string | VTuple "pyval list"

text \<open>
  The classes made by the loops over \<^verbatim>\<open>unary_ops\<close> and \<^verbatim>\<open>binary_ops\<close>, with the
  subclasses of \<^verbatim>\<open>PyBinaryOp\<close> that the module writes out.
\<close>

datatype unop = PyPositive | PyNegative | PyNot | PyInvert

datatype binop =
  PyPower | PyMultiply | PyFloorDivide | PyTrueDivide | PyModulo | PyAdd | PySubtract
  | PySubscript | PyLeftShift | PyRightShift | PyAnd | PyXor | PyOr
  | PyBooleanAnd | PyBooleanOr | PyKeyValue

text \<open>
  Objects. Every object carries its identity \<open>oid\<close>, what Python's \<^verbatim>\<open>id\<close> gives: two
  objects are the same object when their identities are equal. The expression nodes
  are immutable after construction and hold their children. \<open>PyStr\<close> is a Python
  string (the operators in the list of a \<^verbatim>\<open>PyCompare\<close> are strings of \<^verbatim>\<open>cmp_op\<close>).
  An \<^verbatim>\<open>Unpack\<close> object is mutable: the datatype holds its identity, and its fields
  are in the store of the decompiler state below. The expression classes that are not
  listed (calls, slices, dictionaries, conditional expressions, lambdas and
  comprehensions) take no part in the operations modelled here.
\<close>

datatype pyobj =
    PyConst (oid: nat) pyval
  | PyName (oid: nat) string
  | PyTuple (oid: nat) "pyobj list"
  | PyList (oid: nat) "pyobj list"
  | PySet (oid: nat) "pyobj list"
  | PyUnaryOp (oid: nat) unop pyobj
  | PyBinaryOp (oid: nat) binop pyobj pyobj
  | PyCompare (oid: nat) "pyobj list"
  | PyStarred (oid: nat) pyobj
  | PyAttribute (oid: nat) pyobj pyobj
  | PyStr (oid: nat) string
  | Unpack (oid: nat)

text \<open>\<^verbatim>\<open>isinstance(x, PyExpr)\<close>.\<close>

fun is_PyExpr :: "pyobj \<Rightarrow> bool" where
  "is_PyExpr (PyStr i s) = False"
| "is_PyExpr (Unpack i) = False"
| "is_PyExpr x = True"

text \<open>
  Python's \<^verbatim>\<open>a == b\<close> on these objects. \<^verbatim>\<open>PyConst.__eq__\<close> and \<^verbatim>\<open>PyName.__eq__\<close>
  compare values and answer False for an object of another class; strings compare by
  value; every other class inherits the comparison of identities, which is tried only
  when neither operand defines \<^verbatim>\<open>__eq__\<close>.
\<close>

definition py_eq :: "pyobj \<Rightarrow> pyobj \<Rightarrow> bool" where
  "py_eq x y =
     (case x of
        PyConst i v \<Rightarrow> (case y of PyConst j w \<Rightarrow> v = w | _ \<Rightarrow> False)
      | PyName i n \<Rightarrow> (case y of PyName j m \<Rightarrow> n = m | _ \<Rightarrow> False)
      | PyStr i s \<Rightarrow> (case y of PyStr j t \<Rightarrow> s = t | _ \<Rightarrow> False)
      | _ \<Rightarrow>
          (case y of
             PyConst j w \<Rightarrow> False
           | PyName j m \<Rightarrow> False
           | PyStr j t \<Rightarrow> False
           | _ \<Rightarrow> oid x = oid y))"

text \<open>The class attribute \<^verbatim>\<open>precedence\<close>; an object that is no expression has none.\<close>

fun unop_precedence :: "unop \<Rightarrow> int" where
  "unop_precedence PyPositive = 13"
| "unop_precedence PyNegative = 13"
| "unop_precedence PyNot = 5"
| "unop_precedence PyInvert = 13"

fun binop_precedence :: "binop \<Rightarrow> int" where
  "binop_precedence PyPower = 14"
| "binop_precedence PyMultiply = 12"
| "binop_precedence PyFloorDivide = 12"
| "binop_precedence PyTrueDivide = 12"
| "binop_precedence PyModulo = 12"
| "binop_precedence PyAdd = 11"
| "binop_precedence PySubtract = 11"
| "binop_precedence PySubscript = 15"
| "binop_precedence PyLeftShift = 10"
| "binop_precedence PyRightShift = 10"
| "binop_precedence PyAnd = 9"
| "binop_precedence PyXor = 8"
| "binop_precedence PyOr = 7"
| "binop_precedence PyBooleanAnd = 4"
| "binop_precedence PyBooleanOr = 3"
| "binop_precedence PyKeyValue = 1"

fun precedence :: "pyobj \<Rightarrow> error + int" where
  "precedence (PyConst i v) = Inr 100"
| "precedence (PyName i n) = Inr 100"
| "precedence (PyTuple i vs) = Inr 0"
| "precedence (PyList i vs) = Inr 16"
| "precedence (PySet i vs) = Inr 16"
| "precedence (PyUnaryOp i u x) = Inr (unop_precedence u)"
| "precedence (PyBinaryOp i b l r) = Inr (binop_precedence b)"
| "precedence (PyCompare i cl) = Inr 6"
| "precedence (PyStarred i x) = Inr 15"
| "precedence (PyAttribute i x n) = Inr 15"
| "precedence (PyStr i s) = Inl AttributeError"
| "precedence (Unpack i) = Inl AttributeError"

text \<open>The attributes \<^verbatim>\<open>pattern\<close>, applied to the operand strings as \<^verbatim>\<open>format\<close> does.\<close>

fun unop_pattern :: "unop \<Rightarrow> string \<Rightarrow> string" where
  "unop_pattern PyPositive s = ''+'' @ s"
| "unop_pattern PyNegative s = ''-'' @ s"
| "unop_pattern PyNot s = ''not '' @ s"
| "unop_pattern PyInvert s = ''~'' @ s"

fun binop_pattern :: "binop \<Rightarrow> string \<Rightarrow> string \<Rightarrow> string" where
  "binop_pattern PyPower l r = l @ ''**'' @ r"
| "binop_pattern PyMultiply l r = l @ ''*'' @ r"
| "binop_pattern PyFloorDivide l r = l @ ''//'' @ r"
| "binop_pattern PyTrueDivide l r = l @ ''/'' @ r"
| "binop_pattern PyModulo l r = l @ '' % '' @ r"
| "binop_pattern PyAdd l r = l @ '' + '' @ r"
| "binop_pattern PySubtract l r = l @ '' - '' @ r"
| "binop_pattern PySubscript l r = l @ ''['' @ r @ '']''"
| "binop_pattern PyLeftShift l r = l @ '' << '' @ r"
| "binop_pattern PyRightShift l r = l @ '' >> '' @ r"
| "binop_pattern PyAnd l r = l @ '' & '' @ r"
| "binop_pattern PyXor l r = l @ '' ^ '' @ r"
| "binop_pattern PyOr l r = l @ '' | '' @ r"
| "binop_pattern PyBooleanAnd l r = l @ '' and '' @ r"
| "binop_pattern PyBooleanOr l r = l @ '' or '' @ r"
| "binop_pattern PyKeyValue l r = l @ '': '' @ r"

text \<open>
  What the interpreter supplies for rendering, a parameter of the model: \<^verbatim>\<open>repr\<close> of a
  constant, and the default \<^verbatim>\<open>object.__str__\<close> of an object whose class defines none,
  which depends on the identity of the object only.
\<close>

record builtins =
  repr :: "pyval \<Rightarrow> string"
  object_str :: "nat \<Rightarrow> string"

text \<open>\<^verbatim>\<open>sep.join(xs)\<close> on a list of strings.\<close>

fun join :: "string \<Rightarrow> string list \<Rightarrow> string" where
  "join sep [] = []"
| "join sep [x] = x"
| "join sep (x # y # ys) = x @ sep @ join sep (y # ys)"

text \<open>The first exception of a list of results, or all the values.\<close>

fun esequence :: "(error + 'a) list \<Rightarrow> error + 'a list" where
  "esequence [] = Inr []"
| "esequence (Inl e # rs) = Inl e"
| "esequence (Inr x # rs) = (case esequence rs of Inl e \<Rightarrow> Inl e | Inr xs \<Rightarrow> Inr (x # xs))"

text \<open>
  \<^verbatim>\<open>x.wrap(cond(x.precedence))\<close>, from the precedence and the string of \<open>x\<close>:
  \<^verbatim>\<open>"({})".format(self)\<close> when the condition holds, \<^verbatim>\<open>str(self)\<close> otherwise. An object
  with no \<^verbatim>\<open>precedence\<close> has no \<^verbatim>\<open>wrap\<close> either.
\<close>

definition wrap :: "error + int \<Rightarrow> (int \<Rightarrow> bool) \<Rightarrow> error + string \<Rightarrow> error + string" where
  "wrap pr cond sr =
     (case pr of
        Inl e \<Rightarrow> Inl e
      | Inr p \<Rightarrow>
          (case sr of
             Inl e \<Rightarrow> Inl e
           | Inr s \<Rightarrow> Inr (if cond p then ''('' @ s @ '')'' else s)))"

text \<open>
  The items that \<^verbatim>\<open>PyCompare.__str__\<close> hands to \<^verbatim>\<open>" ".join\<close>: at an odd index the
  item of the list itself, at an even index its wrapped string. \<open>None\<close> stands for an
  item that is no string, which \<^verbatim>\<open>join\<close> rejects with TypeError once all items are
  computed. The third argument holds the strings of the items.
\<close>

fun compare_items :: "nat \<Rightarrow> pyobj list \<Rightarrow> (error + string) list \<Rightarrow> (error + string option) list" where
  "compare_items i (x # xs) (r # rs) =
     (if odd i then (case x of PyStr j s \<Rightarrow> Inr (Some s) | _ \<Rightarrow> Inr None)
      else (case wrap (precedence x) (\<lambda>p. p \<le> 0) r of
              Inl e \<Rightarrow> Inl e | Inr s \<Rightarrow> Inr (Some s)))
     # compare_items (Suc i) xs rs"
| "compare_items i xs rs = []"

definition join_items :: "string \<Rightarrow> string option list \<Rightarrow> error + string" where
  "join_items sep items =
     (if None \<in> set items then Inl TypeError else Inr (join sep (map the items)))"

text \<open>\<^verbatim>\<open>str(x)\<close>: the methods \<^verbatim>\<open>__str__\<close> of the classes.\<close>

fun str_obj :: "builtins \<Rightarrow> pyobj \<Rightarrow> error + string" where
  "str_obj B (PyConst i v) = Inr (repr B v)"
| "str_obj B (PyName i n) = Inr n"
| "str_obj B (PyTuple i vs) =
     (if vs = [] then Inr ''()''
      else ebind (esequence (map (\<lambda>v. wrap (precedence v) (\<lambda>p. p \<le> 0) (str_obj B v)) vs))
             (\<lambda>valstr. if length valstr = 1 then Inr (hd valstr @ '','')
                        else Inr (join '', '' valstr)))"
| "str_obj B (PyList i vs) =
     ebind (esequence (map (\<lambda>v. wrap (precedence v) (\<lambda>p. p \<le> 0) (str_obj B v)) vs))
       (\<lambda>valstr. Inr (''['' @ join '', '' valstr @ '']''))"
| "str_obj B (PySet i vs) =
     ebind (esequence (map (\<lambda>v. wrap (precedence v) (\<lambda>p. p \<le> 0) (str_obj B v)) vs))
       (\<lambda>valstr. Inr (''{'' @ join '', '' valstr @ ''}''))"
| "str_obj B (PyUnaryOp i u x) =
     ebind (wrap (precedence x) (\<lambda>p. p < unop_precedence u) (str_obj B x))
       (\<lambda>opstr. Inr (unop_pattern u opstr))"
| "str_obj B (PyBinaryOp i b l r) =
     ebind (wrap (precedence l) (\<lambda>p. p < binop_precedence b) (str_obj B l))
       (\<lambda>ls. ebind (if b = PySubscript then str_obj B r
                     else wrap (precedence r) (\<lambda>p. p \<le> binop_precedence b) (str_obj B r))
          (\<lambda>rs. Inr (binop_pattern b ls rs)))"
| "str_obj B (PyCompare i cl) =
     ebind (esequence (compare_items 0 cl (map (str_obj B) cl))) (join_items '' '')"
| "str_obj B (PyStarred i x) =
     ebind (wrap (precedence x) (\<lambda>p. p < 15) (str_obj B x)) (\<lambda>es. Inr (''*'' @ es))"
| "str_obj B (PyAttribute i x n) =
     ebind (wrap (precedence x) (\<lambda>p. p < 15) (str_obj B x))
       (\<lambda>expr_str. ebind (str_obj B n) (\<lambda>ns. Inr (expr_str @ ''.'' @ ns)))"
| "str_obj B (PyStr i s) = Inr s"
| "str_obj B (Unpack i) = Inr (object_str B i)"

section \<open>The evaluation stack\<close>

text \<open>
  The class \<^verbatim>\<open>Stack\<close>: the list \<^verbatim>\<open>_stack\<close>, whose last element is the top, and the
  dictionary \<^verbatim>\<open>_counts\<close> from \<^verbatim>\<open>id(obj)\<close> to the number of times the object is on the
  stack. A method that can raise returns the stack it leaves behind together with its
  result, since the list is changed before the count is.
\<close>

record Stack =
  p_stack :: "pyobj list"
  p_counts :: "(nat \<times> int) list"

definition Stack_init :: Stack where
  "Stack_init = \<lparr>p_stack = [], p_counts = []\<rparr>"

text \<open>\<^verbatim>\<open>del d[k]\<close> raises KeyError when the key is missing.\<close>

fun dict_delitem :: "('k \<times> 'v) list \<Rightarrow> 'k \<Rightarrow> error + ('k \<times> 'v) list" where
  "dict_delitem [] k = Inl KeyError"
| "dict_delitem ((k', v') # d) k =
     (if k' = k then Inr d
      else (case dict_delitem d k of Inl e \<Rightarrow> Inl e | Inr d' \<Rightarrow> Inr ((k', v') # d')))"

definition get_count :: "Stack \<Rightarrow> pyobj \<Rightarrow> int" where
  "get_count st obj = (case map_of (p_counts st) (oid obj) of None \<Rightarrow> 0 | Some n \<Rightarrow> n)"

definition set_count :: "Stack \<Rightarrow> pyobj \<Rightarrow> int \<Rightarrow> error + Stack" where
  "set_count st obj v =
     (if v \<noteq> 0 then Inr (st\<lparr>p_counts := dict_setitem (p_counts st) (oid obj) v\<rparr>)
      else (case dict_delitem (p_counts st) (oid obj) of
              Inl e \<Rightarrow> Inl e
            | Inr d \<Rightarrow> Inr (st\<lparr>p_counts := d\<rparr>)))"

text \<open>\<^verbatim>\<open>__contains__\<close>, \<^verbatim>\<open>__bool__\<close> and \<^verbatim>\<open>__len__\<close>.\<close>

definition contains :: "Stack \<Rightarrow> pyobj \<Rightarrow> bool" where
  "contains st v = (get_count st v > 0)"

definition Stack_bool :: "Stack \<Rightarrow> bool" where
  "Stack_bool st = (p_stack st \<noteq> [])"

definition Stack_len :: "Stack \<Rightarrow> int" where
  "Stack_len st = int (length (p_stack st))"

text \<open>\<^verbatim>\<open>pop1\<close>: \<^verbatim>\<open>list.pop\<close> raises IndexError on the empty list.\<close>

definition pop1 :: "Stack \<Rightarrow> (error + pyobj) \<times> Stack" where
  "pop1 st =
     (if p_stack st = [] then (Inl IndexError, st)
      else
        let v = last (p_stack st); st1 = st\<lparr>p_stack := butlast (p_stack st)\<rparr> in
        (case set_count st1 v (get_count st1 v - 1) of
           Inl e \<Rightarrow> (Inl e, st1)
         | Inr st2 \<Rightarrow> (Inr v, st2)))"

text \<open>
  \<^verbatim>\<open>pop(count)\<close>: the list comprehension calls \<^verbatim>\<open>pop1\<close> \<^verbatim>\<open>count\<close> times (not at all
  for a negative count), then the list is reversed.
\<close>

fun pop_loop :: "nat \<Rightarrow> Stack \<Rightarrow> (error + pyobj list) \<times> Stack" where
  "pop_loop 0 st = (Inr [], st)"
| "pop_loop (Suc n) st =
     (case pop1 st of
        (Inl e, st1) \<Rightarrow> (Inl e, st1)
      | (Inr v, st1) \<Rightarrow>
          (case pop_loop n st1 of
             (Inl e, st2) \<Rightarrow> (Inl e, st2)
           | (Inr vs, st2) \<Rightarrow> (Inr (v # vs), st2)))"

definition pop_count :: "Stack \<Rightarrow> int \<Rightarrow> (error + pyobj list) \<times> Stack" where
  "pop_count st n =
     (case pop_loop (nat n) st of
        (Inl e, st1) \<Rightarrow> (Inl e, st1)
      | (Inr vals, st1) \<Rightarrow> (Inr (rev vals), st1))"

text \<open>\<^verbatim>\<open>push(*args)\<close>.\<close>

fun push :: "Stack \<Rightarrow> pyobj list \<Rightarrow> (error + unit) \<times> Stack" where
  "push st [] = (Inr (), st)"
| "push st (v # vs) =
     (case set_count st v (get_count st v + 1) of
        Inl e \<Rightarrow> (Inl e, st)
      | Inr st1 \<Rightarrow> push (st1\<lparr>p_stack := p_stack st1 @ [v]\<rparr>) vs)"

text \<open>
  \<^verbatim>\<open>peek()\<close> is \<^verbatim>\<open>self._stack[-1]\<close>; \<^verbatim>\<open>peek(count)\<close> is the slice
  \<^verbatim>\<open>self._stack[-count:]\<close>, which is the whole list for a count of 0 and drops
  \<^verbatim>\<open>-count\<close> elements for a negative count.
\<close>

definition peek :: "Stack \<Rightarrow> error + pyobj" where
  "peek st = (if p_stack st = [] then Inl IndexError else Inr (last (p_stack st)))"

definition peek_count :: "Stack \<Rightarrow> int \<Rightarrow> pyobj list" where
  "peek_count st n =
     (if n > 0 then drop (length (p_stack st) - nat n) (p_stack st)
      else drop (nat (- n)) (p_stack st))"

text \<open>
  A call of a method of the stack, and the stack that a sequence of calls leaves, whether
  a call raised or not.
\<close>

datatype stack_call = Push "pyobj list" | Pop | PopCount int | Peek | PeekCount int

fun stack_after :: "Stack \<Rightarrow> stack_call \<Rightarrow> Stack" where
  "stack_after st (Push vs) = snd (push st vs)"
| "stack_after st Pop = snd (pop1 st)"
| "stack_after st (PopCount n) = snd (pop_count st n)"
| "stack_after st Peek = st"
| "stack_after st (PeekCount n) = st"

text \<open>Whether a call raised KeyError, the exception of a count that is out of step.\<close>

fun raises_KeyError :: "Stack \<Rightarrow> stack_call \<Rightarrow> bool" where
  "raises_KeyError st (Push vs) = (fst (push st vs) = Inl KeyError)"
| "raises_KeyError st Pop = (fst (pop1 st) = Inl KeyError)"
| "raises_KeyError st (PopCount n) = (fst (pop_count st n) = Inl KeyError)"
| "raises_KeyError st c = False"

text \<open>The number of times the object of identity \<open>k\<close> is in a list.\<close>

definition occurrences :: "pyobj list \<Rightarrow> nat \<Rightarrow> int" where
  "occurrences xs k = int (length (filter (\<lambda>x. oid x = k) xs))"

text \<open>
  The counts agree with the list: the dictionary has one entry for each identity on the
  stack, holding its number of occurrences, and no other entry.
\<close>

definition Stack_ok :: "Stack \<Rightarrow> bool" where
  "Stack_ok st =
     (distinct (map fst (p_counts st))
      \<and> (\<forall>(k, n) \<in> set (p_counts st). n = occurrences (p_stack st) k \<and> n \<noteq> 0)
      \<and> (\<forall>x \<in> set (p_stack st). oid x \<in> fst ` set (p_counts st)))"

text \<open>The same agreement, as a statement about the lookups in the dictionary.\<close>

definition counts_map :: "Stack \<Rightarrow> bool" where
  "counts_map st = (distinct (map fst (p_counts st))
     \<and> (\<forall>k. map_of (p_counts st) k =
            (if occurrences (p_stack st) k = 0 then None
             else Some (occurrences (p_stack st) k))))"

section \<open>The suite decompiler\<close>

text \<open>
  The statements that the modelled handlers add to a suite: a \<^verbatim>\<open>SimpleStatement\<close> holds
  its line, an \<^verbatim>\<open>AssignStatement\<close> its chain of targets ending in the value.
\<close>

datatype stmt = SimpleStatement string | AssignStatement "pyobj list"

text \<open>The fields of an \<^verbatim>\<open>Unpack\<close> object: \<^verbatim>\<open>val\<close>, \<^verbatim>\<open>length\<close>, \<^verbatim>\<open>star_index\<close>, \<^verbatim>\<open>dests\<close>.\<close>

record unpack_fields =
  unpack_val :: pyobj
  unpack_length :: int
  unpack_star_index :: "int option"
  unpack_dests :: "pyobj list"

text \<open>
  The state of a \<^verbatim>\<open>SuiteDecompiler\<close>: its stack, its suite (the list
  \<^verbatim>\<open>suite.statements\<close>), \<^verbatim>\<open>assignment_chain\<close> and \<^verbatim>\<open>popjump_stack\<close>, whose entries are
  \<^verbatim>\<open>(truthiness, addr, cond)\<close> with the last entry on top. With it travel the two
  parts of the interpreter's state that the handlers change: the fields of the
  \<^verbatim>\<open>Unpack\<close> objects by identity, and the next identity to give to a new object.
\<close>

record SuiteDecompiler =
  stack :: Stack
  suite :: "stmt list"
  assignment_chain :: "pyobj list"
  popjump_stack :: "(bool \<times> Address option \<times> pyobj) list"
  unpacks :: "(nat \<times> unpack_fields) list"
  next_id :: nat

text \<open>
  The calls \<^verbatim>\<open>self.stack.pop()\<close>, \<^verbatim>\<open>self.stack.pop(n)\<close> and \<^verbatim>\<open>self.stack.push(...)\<close>
  inside a handler: an exception leaves the handler.
\<close>

definition stack_pop :: "SuiteDecompiler \<Rightarrow> error + (pyobj \<times> SuiteDecompiler)" where
  "stack_pop s =
     (case pop1 (stack s) of
        (Inl e, st) \<Rightarrow> Inl e
      | (Inr v, st) \<Rightarrow> Inr (v, s\<lparr>stack := st\<rparr>))"

definition stack_pop_count :: "SuiteDecompiler \<Rightarrow> int \<Rightarrow> error + (pyobj list \<times> SuiteDecompiler)" where
  "stack_pop_count s n =
     (case pop_count (stack s) n of
        (Inl e, st) \<Rightarrow> Inl e
      | (Inr vs, st) \<Rightarrow> Inr (vs, s\<lparr>stack := st\<rparr>))"

definition stack_push :: "SuiteDecompiler \<Rightarrow> pyobj list \<Rightarrow> error + SuiteDecompiler" where
  "stack_push s vs =
     (case push (stack s) vs of
        (Inl e, st) \<Rightarrow> Inl e
      | (Inr u, st) \<Rightarrow> Inr (s\<lparr>stack := st\<rparr>))"

text \<open>
  \<^verbatim>\<open>write\<close>, for a line that is already formatted: it adds a \<^verbatim>\<open>SimpleStatement\<close> to the
  suite. (The arguments of the calls modelled here are objects from the stack, none an
  \<^verbatim>\<open>int\<close>, so \<^verbatim>\<open>fmt\<close> leaves them as they are.)
\<close>

definition write_line :: "SuiteDecompiler \<Rightarrow> string \<Rightarrow> SuiteDecompiler" where
  "write_line s line = s\<lparr>suite := suite s @ [SimpleStatement line]\<rparr>"

text \<open>
  \<^verbatim>\<open>PyExpr.store\<close>: the destination joins the chain; when the value is no longer on the
  stack, the value joins it too and the chain becomes an assignment statement.
\<close>

definition PyExpr_store :: "pyobj \<Rightarrow> SuiteDecompiler \<Rightarrow> pyobj \<Rightarrow> SuiteDecompiler" where
  "PyExpr_store self s dest =
     (let chain = assignment_chain s @ [dest] in
      if \<not> contains (stack s) self then
        s\<lparr>suite := suite s @ [AssignStatement (chain @ [self])], assignment_chain := []\<rparr>
      else s\<lparr>assignment_chain := chain\<rparr>)"

text \<open>
  \<^verbatim>\<open>val.store(dec, dest)\<close>, by the class of \<^verbatim>\<open>val\<close>. \<^verbatim>\<open>Unpack.store\<close> ends in
  \<^verbatim>\<open>dec.store(PyTuple(self.dests))\<close>, which pops the value it has just pushed and calls
  the \<^verbatim>\<open>store\<close> of that value: the calls nest as deep as the values of \<^verbatim>\<open>Unpack\<close>
  objects do. The first argument bounds the depth, as the recursion limit of the
  interpreter does. A string has no \<^verbatim>\<open>store\<close>. An \<^verbatim>\<open>Unpack\<close> whose fields are missing
  from the state does not occur in Python; the model answers AttributeError.
\<close>

fun obj_store :: "nat \<Rightarrow> pyobj \<Rightarrow> SuiteDecompiler \<Rightarrow> pyobj \<Rightarrow> error + SuiteDecompiler" where
  "obj_store 0 self s dest = Inl RecursionError"
| "obj_store (Suc n) self s dest =
     (case self of
        Unpack i \<Rightarrow>
          (case map_of (unpacks s) i of
             None \<Rightarrow> Inl AttributeError
           | Some u \<Rightarrow>
               let starred = (Some (int (length (unpack_dests u))) = unpack_star_index u);
                   dest1 = (if starred then PyStarred (next_id s) dest else dest);
                   s1 = (if starred then s\<lparr>next_id := Suc (next_id s)\<rparr> else s);
                   u1 = u\<lparr>unpack_dests := unpack_dests u @ [dest1]\<rparr>;
                   s2 = s1\<lparr>unpacks := dict_setitem (unpacks s1) i u1\<rparr>
               in
               if int (length (unpack_dests u1)) = unpack_length u1 then
                 (case stack_push s2 [unpack_val u1] of
                    Inl e \<Rightarrow> Inl e
                  | Inr s3 \<Rightarrow>
                      let t = PyTuple (next_id s3) (unpack_dests u1);
                          s4 = s3\<lparr>next_id := Suc (next_id s3)\<rparr>
                      in
                      (case stack_pop s4 of
                         Inl e \<Rightarrow> Inl e
                       | Inr (v, s5) \<Rightarrow> obj_store n v s5 t))
               else Inr s2)
      | PyStr i str \<Rightarrow> Inl AttributeError
      | _ \<Rightarrow> Inr (PyExpr_store self s dest))"

text \<open>\<^verbatim>\<open>SuiteDecompiler.store\<close>: \<^verbatim>\<open>val = self.stack.pop(); val.store(self, dest)\<close>.\<close>

definition store :: "nat \<Rightarrow> SuiteDecompiler \<Rightarrow> pyobj \<Rightarrow> error + SuiteDecompiler" where
  "store n s dest =
     (case stack_pop s of Inl e \<Rightarrow> Inl e | Inr (v, s1) \<Rightarrow> obj_store n v s1 dest)"

text \<open>
  The first \<^verbatim>\<open>ROT_TWO\<close> of the class body (under "Stack manipulation"):
  \<^verbatim>\<open>tos1, tos = self.stack.pop(2); self.stack.push(tos, tos1)\<close>.
\<close>

definition ROT_TWO_swap :: "SuiteDecompiler \<Rightarrow> error + SuiteDecompiler" where
  "ROT_TWO_swap s =
     (case stack_pop_count s 2 of
        Inl e \<Rightarrow> Inl e
      | Inr (vs, s1) \<Rightarrow>
          (case vs of
             [tos1, tos] \<Rightarrow> stack_push s1 [tos, tos1]
           | _ \<Rightarrow> Inl ValueError))"

text \<open>
  \<^verbatim>\<open>UNPACK_SEQUENCE\<close>: one new \<^verbatim>\<open>Unpack\<close> object around the popped value, pushed
  \<^verbatim>\<open>count\<close> times by the loop.
\<close>

definition UNPACK_SEQUENCE :: "SuiteDecompiler \<Rightarrow> int \<Rightarrow> error + SuiteDecompiler" where
  "UNPACK_SEQUENCE s count =
     (case stack_pop s of
        Inl e \<Rightarrow> Inl e
      | Inr (v, s1) \<Rightarrow>
          let unpack = Unpack (next_id s1);
              s2 = s1\<lparr>unpacks := dict_setitem (unpacks s1) (next_id s1)
                         \<lparr>unpack_val = v, unpack_length = count,
                          unpack_star_index = None, unpack_dests = []\<rparr>,
                      next_id := Suc (next_id s1)\<rparr>
          in efoldl (\<lambda>s' i. stack_push s' [unpack]) s2 [0..<nat count])"

text \<open>
  The second \<^verbatim>\<open>ROT_TWO\<close> of the class body (under "special case: x, y = z, t"): a new
  \<^verbatim>\<open>PyTuple\<close> of the list that \<^verbatim>\<open>pop(2)\<close> returns, a new \<^verbatim>\<open>Unpack\<close> of length 2
  around it, pushed twice.
\<close>

definition ROT_TWO_unpack :: "SuiteDecompiler \<Rightarrow> error + SuiteDecompiler" where
  "ROT_TWO_unpack s =
     (case stack_pop_count s 2 of
        Inl e \<Rightarrow> Inl e
      | Inr (vs, s1) \<Rightarrow>
          let v = PyTuple (next_id s1) vs;
              unpack = Unpack (Suc (next_id s1));
              s2 = s1\<lparr>unpacks := dict_setitem (unpacks s1) (Suc (next_id s1))
                         \<lparr>unpack_val = v, unpack_length = 2,
                          unpack_star_index = None, unpack_dests = []\<rparr>,
                      next_id := Suc (Suc (next_id s1))\<rparr>
          in (case stack_push s2 [unpack] of
                Inl e \<Rightarrow> Inl e
              | Inr s3 \<Rightarrow> stack_push s3 [unpack]))"

text \<open>
  How many items iterating over an object yields, for the unpacking assignment
  \<^verbatim>\<open>exc, from_exc = ...\<close>: \<^verbatim>\<open>PyConst\<close>, \<^verbatim>\<open>PyTuple\<close>, \<^verbatim>\<open>PyList\<close> and \<^verbatim>\<open>PySet\<close> define
  \<^verbatim>\<open>__iter__\<close>, and a string is iterable; no other class is. Iterating over a constant
  iterates over its value.
\<close>

fun iter_len_val :: "pyval \<Rightarrow> nat option" where
  "iter_len_val (VStr s) = Some (length s)"
| "iter_len_val (VTuple vs) = Some (length vs)"
| "iter_len_val v = None"

fun iter_len :: "pyobj \<Rightarrow> nat option" where
  "iter_len (PyConst i v) = iter_len_val v"
| "iter_len (PyTuple i vs) = Some (length vs)"
| "iter_len (PyList i vs) = Some (length vs)"
| "iter_len (PySet i vs) = Some (length vs)"
| "iter_len (PyStr i s) = Some (length s)"
| "iter_len x = None"

text \<open>
  \<^verbatim>\<open>RAISE_VARARGS\<close>. For \<^verbatim>\<open>argc == 2\<close> the handler pops one object with
  \<^verbatim>\<open>self.stack.pop()\<close> and unpacks it into two names: TypeError when the object is not
  iterable, ValueError when it does not yield two items. The next line reads the
  attribute \<^verbatim>\<open>exc\<close> of the string \<^verbatim>\<open>"raise {} from {}"\<close> (a dot stands where a comma was
  meant), which raises AttributeError. The name \<^verbatim>\<open>Unknown\<close> of the last branch is
  defined nowhere in the module, so \<^verbatim>\<open>raise Unknown\<close> raises NameError.
\<close>

definition RAISE_VARARGS :: "builtins \<Rightarrow> SuiteDecompiler \<Rightarrow> int \<Rightarrow> error + SuiteDecompiler" where
  "RAISE_VARARGS B s argc =
     (if argc = 0 then Inr (write_line s ''raise'')
      else if argc = 1 then
        (case stack_pop s of
           Inl e \<Rightarrow> Inl e
         | Inr (exception, s1) \<Rightarrow>
             (case str_obj B exception of
                Inl e \<Rightarrow> Inl e
              | Inr es \<Rightarrow> Inr (write_line s1 (''raise '' @ es))))
      else if argc = 2 then
        (case stack_pop s of
           Inl e \<Rightarrow> Inl e
         | Inr (v, s1) \<Rightarrow>
             (case iter_len v of
                None \<Rightarrow> Inl TypeError
              | Some n \<Rightarrow> if n = 2 then Inl AttributeError else Inl ValueError))
      else Inl NameError)"

text \<open>
  The class body of \<^verbatim>\<open>SuiteDecompiler\<close> binds its names in the order of the source, and
  a later \<^verbatim>\<open>def\<close> of a name replaces the earlier one. The list holds the definitions
  of the opcode handlers modelled above, in that order; \<^verbatim>\<open>getattr\<close> finds the last
  binding of a name.
\<close>

datatype handler_def =
  Def_ROT_TWO_swap | Def_UNPACK_SEQUENCE | Def_ROT_TWO_unpack | Def_RAISE_VARARGS

definition class_body :: "(string \<times> handler_def) list" where
  "class_body =
     [(''ROT_TWO'', Def_ROT_TWO_swap),
      (''UNPACK_SEQUENCE'', Def_UNPACK_SEQUENCE),
      (''ROT_TWO'', Def_ROT_TWO_unpack),
      (''RAISE_VARARGS'', Def_RAISE_VARARGS)]"

definition class_dict :: "(string \<times> handler_def) list" where
  "class_dict = foldl (\<lambda>d (name, h). dict_setitem d name h) [] class_body"

text \<open>
  The call that \<^verbatim>\<open>run\<close> makes: \<^verbatim>\<open>method(addr)\<close> when the instruction has no argument,
  \<^verbatim>\<open>method(addr, arg)\<close> otherwise; a call with the wrong number of arguments raises
  TypeError, a name with no method AttributeError. None of these handlers reads
  \<^verbatim>\<open>addr\<close>, and each returns None, so \<^verbatim>\<open>run\<close> goes on at the next instruction.
\<close>

definition call_handler ::
  "builtins \<Rightarrow> handler_def \<Rightarrow> SuiteDecompiler \<Rightarrow> int option \<Rightarrow> error + SuiteDecompiler" where
  "call_handler B h s ar =
     (case h of
        Def_ROT_TWO_swap \<Rightarrow> (case ar of None \<Rightarrow> ROT_TWO_swap s | Some a \<Rightarrow> Inl TypeError)
      | Def_ROT_TWO_unpack \<Rightarrow> (case ar of None \<Rightarrow> ROT_TWO_unpack s | Some a \<Rightarrow> Inl TypeError)
      | Def_UNPACK_SEQUENCE \<Rightarrow> (case ar of None \<Rightarrow> Inl TypeError | Some a \<Rightarrow> UNPACK_SEQUENCE s a)
      | Def_RAISE_VARARGS \<Rightarrow> (case ar of None \<Rightarrow> Inl TypeError | Some a \<Rightarrow> RAISE_VARARGS B s a))"

definition dispatch ::
  "builtins \<Rightarrow> string \<Rightarrow> SuiteDecompiler \<Rightarrow> int option \<Rightarrow> error + SuiteDecompiler" where
  "dispatch B name s ar =
     (case map_of class_dict name of
        None \<Rightarrow> Inl AttributeError
      | Some h \<Rightarrow> call_handler B h s ar)"

text \<open>
  \<^verbatim>\<open>UNPACK_SEQUENCE\<close> with as many slots as there are destinations, followed by the
  calls \<^verbatim>\<open>self.store(dest)\<close> that the store instructions make, one for each destination.
\<close>

definition unpack_and_store :: "nat \<Rightarrow> SuiteDecompiler \<Rightarrow> pyobj list \<Rightarrow> error + SuiteDecompiler" where
  "unpack_and_store m s ds =
     ebind (UNPACK_SEQUENCE s (int (length ds))) (\<lambda>s1. efoldl (store m) s1 ds)"

section \<open>Short-circuit conditions\<close>

text \<open>
  \<^verbatim>\<open>Address.__lt__\<close> and \<^verbatim>\<open>Address.__eq__\<close>, with an address on the left. Code objects
  compare by identity.
\<close>

definition Address_lt :: "Address \<Rightarrow> Address option \<Rightarrow> bool" where
  "Address_lt a other =
     (case other of
        None \<Rightarrow> True
      | Some b \<Rightarrow> code_id (code a) = code_id (code b) \<and> index a < index b)"

definition Address_eq :: "Address \<Rightarrow> Address option \<Rightarrow> bool" where
  "Address_eq a other =
     (case other of
        None \<Rightarrow> False
      | Some b \<Rightarrow> code_id (code a) = code_id (code b) \<and> index a = index b)"

text \<open>
  The test \<^verbatim>\<open>jaddr < addr or jaddr == addr\<close> of the loop in \<^verbatim>\<open>push_popjump\<close>. When
  \<^verbatim>\<open>jaddr\<close> is None, \<^verbatim>\<open>None < addr\<close> has no method to call on either side
  (\<^verbatim>\<open>Address\<close> defines no \<^verbatim>\<open>__gt__\<close>) and raises TypeError.
\<close>

definition at_or_before :: "Address option \<Rightarrow> Address option \<Rightarrow> error + bool" where
  "at_or_before jaddr a =
     (case jaddr of
        None \<Rightarrow> Inl TypeError
      | Some j \<Rightarrow> Inr (Address_lt j a \<or> Address_eq j a))"

text \<open>\<^verbatim>\<open>Address.is_else_jump\<close>: \<^verbatim>\<open>self in self.code.else_jumps\<close>.\<close>

definition is_else_jump :: "Address \<Rightarrow> error + bool" where
  "is_else_jump a =
     (case else_jumps (code a) of
        None \<Rightarrow> Inl AttributeError
      | Some S \<Rightarrow> Inr (index a \<in> S))"

text \<open>
  The first statement of \<^verbatim>\<open>push_popjump\<close>: when the instruction before the target is an
  else-jump, the target becomes the target of that jump. \<^verbatim>\<open>jaddr[-1]\<close> is None for the
  first instruction, and None has no \<^verbatim>\<open>is_else_jump\<close>.
\<close>

definition popjump_target :: "opcode_module \<Rightarrow> Address option \<Rightarrow> error + Address option" where
  "popjump_target T jaddr =
     (case jaddr of
        None \<Rightarrow> Inr None
      | Some j \<Rightarrow>
          (case Address_getitem j (- 1) of
             Inl e \<Rightarrow> Inl e
           | Inr None \<Rightarrow> Inl AttributeError
           | Inr (Some p) \<Rightarrow>
               (case is_else_jump p of
                  Inl e \<Rightarrow> Inl e
                | Inr True \<Rightarrow> Address_jump T p
                | Inr False \<Rightarrow> Inr (Some j))))"

text \<open>
  The body of the loop after \<^verbatim>\<open>stack.pop()\<close>: the class is \<^verbatim>\<open>PyBooleanOr\<close> for a true
  entry and \<^verbatim>\<open>PyBooleanAnd\<close> otherwise; a condition of that class is taken apart and
  built again around the popped condition, any other becomes the right operand. The
  new objects take the next identities, the inner one first.
\<close>

definition obj_maker :: "bool \<Rightarrow> binop" where
  "obj_maker truthiness = (if truthiness then PyBooleanOr else PyBooleanAnd)"

definition merge_cond :: "bool \<Rightarrow> pyobj \<Rightarrow> pyobj \<Rightarrow> nat \<Rightarrow> pyobj \<times> nat" where
  "merge_cond truthiness cond jcond n =
     (case jcond of
        PyBinaryOp i b l r \<Rightarrow>
          if b = obj_maker truthiness then
            (PyBinaryOp (Suc n) (obj_maker truthiness)
               (PyBinaryOp n (obj_maker truthiness) cond l) r, Suc (Suc n))
          else (PyBinaryOp n (obj_maker truthiness) cond jcond, Suc n)
      | _ \<Rightarrow> (PyBinaryOp n (obj_maker truthiness) cond jcond, Suc n))"

text \<open>
  The loop \<^verbatim>\<open>while stack:\<close> of \<^verbatim>\<open>push_popjump\<close>, on the list of pending entries, the
  condition so far and the next identity.
\<close>

function popjump_loop ::
  "Address option \<Rightarrow> (bool \<times> Address option \<times> pyobj) list \<Rightarrow> pyobj \<Rightarrow> nat
     \<Rightarrow> error + ((bool \<times> Address option \<times> pyobj) list \<times> pyobj \<times> nat)" where
  "popjump_loop jaddr pending jcond n =
     (if pending = [] then Inr (pending, jcond, n)
      else
        (case last pending of
           (truthiness, a, cond) \<Rightarrow>
             (case at_or_before jaddr a of
                Inl e \<Rightarrow> Inl e
              | Inr True \<Rightarrow> Inr (pending, jcond, n)
              | Inr False \<Rightarrow>
                  (case merge_cond truthiness cond jcond n of
                     (jcond1, n1) \<Rightarrow> popjump_loop jaddr (butlast pending) jcond1 n1))))"
  by pat_completeness auto

termination
  by (relation "measure (\<lambda>(jaddr, pending, jcond, n). length pending)") auto

definition push_popjump ::
  "opcode_module \<Rightarrow> SuiteDecompiler \<Rightarrow> bool \<Rightarrow> Address option \<Rightarrow> pyobj
     \<Rightarrow> error + SuiteDecompiler" where
  "push_popjump T s jtruthiness jaddr jcond =
     (case popjump_target T jaddr of
        Inl e \<Rightarrow> Inl e
      | Inr jaddr1 \<Rightarrow>
          (case popjump_loop jaddr1 (popjump_stack s) jcond (next_id s) of
             Inl e \<Rightarrow> Inl e
           | Inr (pending, jcond1, n1) \<Rightarrow>
               Inr (s\<lparr>popjump_stack := pending @ [(jtruthiness, jaddr1, jcond1)],
                       next_id := n1\<rparr>)))"

text \<open>\<^verbatim>\<open>pop_popjump\<close>: \<^verbatim>\<open>list.pop\<close> raises IndexError on the empty list.\<close>

definition pop_popjump :: "SuiteDecompiler \<Rightarrow> error + (pyobj \<times> SuiteDecompiler)" where
  "pop_popjump s =
     (if popjump_stack s = [] then Inl IndexError
      else (case last (popjump_stack s) of
              (truthiness, a, cond) \<Rightarrow>
                Inr (cond, s\<lparr>popjump_stack := butlast (popjump_stack s)\<rparr>)))"

text \<open>
  \<^verbatim>\<open>PyCompare.extends\<close> and \<^verbatim>\<open>PyCompare.chain\<close>, for \<^verbatim>\<open>self\<close> a \<^verbatim>\<open>PyCompare\<close> with the
  list \<open>cl\<close>. Reading the first or the last element of an empty list raises IndexError.
\<close>

definition PyCompare_extends :: "pyobj list \<Rightarrow> pyobj \<Rightarrow> error + bool" where
  "PyCompare_extends cl other =
     (case other of
        PyCompare j ol \<Rightarrow>
          if cl = [] \<or> ol = [] then Inl IndexError else Inr (py_eq (hd cl) (last ol))
      | _ \<Rightarrow> Inr False)"

definition PyCompare_chain :: "nat \<Rightarrow> pyobj list \<Rightarrow> pyobj list \<Rightarrow> pyobj" where
  "PyCompare_chain n cl ol = PyCompare n (cl @ drop 1 ol)"

text \<open>
  The end of \<^verbatim>\<open>JUMP_IF_FALSE_OR_POP\<close>: the node for \<^verbatim>\<open>left and right\<close>. When
  \<^verbatim>\<open>right\<close> is a comparison that extends \<^verbatim>\<open>left\<close>, it is \<^verbatim>\<open>left.chain(right)\<close>;
  otherwise \<^verbatim>\<open>PyBooleanAnd(left, right)\<close>. The new object takes the identity \<open>n\<close>.
\<close>

definition and_combine :: "nat \<Rightarrow> pyobj \<Rightarrow> pyobj \<Rightarrow> error + pyobj" where
  "and_combine n left right =
     (case right of
        PyCompare j rl \<Rightarrow>
          (case PyCompare_extends rl left of
             Inl e \<Rightarrow> Inl e
           | Inr True \<Rightarrow>
               (case left of
                  PyCompare i ll \<Rightarrow> Inr (PyCompare_chain n ll rl)
                | _ \<Rightarrow> Inl AttributeError)
           | Inr False \<Rightarrow> Inr (PyBinaryOp n PyBooleanAnd left right))
      | _ \<Rightarrow> Inr (PyBinaryOp n PyBooleanAnd left right))"

text \<open>
  The statement \<^verbatim>\<open>if end_addr.opcode == ROT_TWO: ...\<close> of \<^verbatim>\<open>JUMP_IF_FALSE_OR_POP\<close>: the
  address where the right operand ends. In a chained comparison the jump leads to a
  \<^verbatim>\<open>ROT_TWO\<close> that follows \<^verbatim>\<open>JUMP_FORWARD 2\<close>, and the end is two instructions
  further. \<^verbatim>\<open>end_addr.opcode\<close> raises when \<^verbatim>\<open>end_addr\<close> is None, and None cannot be
  unpacked into \<^verbatim>\<open>opc, arg\<close>.
\<close>

definition and_end_addr :: "opcode_module \<Rightarrow> Address option \<Rightarrow> error + Address option" where
  "and_end_addr T end_addr =
     (case end_addr of
        None \<Rightarrow> Inl AttributeError
      | Some e \<Rightarrow>
          if opcode e = opmap T ''ROT_TWO'' then
            (case Address_getitem e (- 1) of
               Inl err \<Rightarrow> Inl err
             | Inr None \<Rightarrow> Inl TypeError
             | Inr (Some p) \<Rightarrow>
                 if opcode p = opmap T ''JUMP_FORWARD'' \<and> arg p = Some 2
                 then Address_getitem e 2 else Inr (Some e))
          else Inr (Some e))"

text \<open>
  \<^verbatim>\<open>JUMP_IF_FALSE_OR_POP\<close>. The handler decompiles the right operand with a new
  \<^verbatim>\<open>SuiteDecompiler\<close> that shares the stack: \<open>run\<close>, a parameter, stands for
  \<^verbatim>\<open>SuiteDecompiler.run\<close> on the new decompiler from \<^verbatim>\<open>addr[1]\<close> to \<^verbatim>\<open>end_addr\<close>. Its
  suite is dropped; the stack and the objects it made are kept. The handler returns
  \<^verbatim>\<open>end_addr\<close>, where \<^verbatim>\<open>run\<close> of the caller goes on.
\<close>

definition JUMP_IF_FALSE_OR_POP ::
  "opcode_module
     \<Rightarrow> (Address \<Rightarrow> Address option \<Rightarrow> SuiteDecompiler \<Rightarrow> error + SuiteDecompiler)
     \<Rightarrow> SuiteDecompiler \<Rightarrow> Address \<Rightarrow> error + (SuiteDecompiler \<times> Address option)" where
  "JUMP_IF_FALSE_OR_POP T run s a =
     ebind (Address_jump T a) (\<lambda>end_addr.
     ebind (stack_pop s) (\<lambda>(v, s1).
     ebind (push_popjump T s1 True end_addr v) (\<lambda>s2.
     ebind (pop_popjump s2) (\<lambda>(left, s3).
     ebind (and_end_addr T end_addr) (\<lambda>end_addr1.
     ebind (Address_getitem a 1) (\<lambda>start.
       case start of
         None \<Rightarrow> Inl AttributeError
       | Some start_addr \<Rightarrow>
           ebind (run start_addr end_addr1
                    \<lparr>stack = stack s3, suite = [], assignment_chain = [], popjump_stack = [],
                     unpacks = unpacks s3, next_id = next_id s3\<rparr>) (\<lambda>d.
           ebind (stack_pop (s3\<lparr>stack := stack d, unpacks := unpacks d,
                                next_id := next_id d\<rparr>)) (\<lambda>(right, s5).
           ebind (and_combine (next_id s5) left right) (\<lambda>py_and.
           ebind (stack_push (s5\<lparr>next_id := Suc (next_id s5)\<rparr>) [py_and]) (\<lambda>s7.
             Inr (s7, end_addr1)))))))))))"

section \<open>Concrete instances\<close>

text \<open>
  The instances at which the theorems below are tried. The opcode table holds the numbers
  of CPython 3.2, the version the module's docstring names, for the opcode names the
  module refers to. No general theorem depends on these numbers.
\<close>

definition py32_opmap :: "(string \<times> int) list" where
  "py32_opmap =
     [(''POP_TOP'', 1), (''ROT_TWO'', 2), (''ROT_THREE'', 3), (''DUP_TOP'', 4),
      (''DUP_TOP_TWO'', 5), (''NOP'', 9), (''BREAK_LOOP'', 80), (''WITH_CLEANUP'', 81),
      (''RETURN_VALUE'', 83), (''IMPORT_STAR'', 84), (''YIELD_VALUE'', 86),
      (''POP_BLOCK'', 87), (''END_FINALLY'', 88), (''POP_EXCEPT'', 89),
      (''STORE_NAME'', 90), (''DELETE_NAME'', 91), (''UNPACK_SEQUENCE'', 92),
      (''FOR_ITER'', 93), (''UNPACK_EX'', 94), (''STORE_ATTR'', 95),
      (''DELETE_ATTR'', 96), (''STORE_GLOBAL'', 97), (''DELETE_GLOBAL'', 98),
      (''LOAD_CONST'', 100), (''LOAD_NAME'', 101), (''COMPARE_OP'', 107),
      (''IMPORT_NAME'', 108), (''IMPORT_FROM'', 109), (''JUMP_FORWARD'', 110),
      (''JUMP_IF_FALSE_OR_POP'', 111), (''JUMP_IF_TRUE_OR_POP'', 112),
      (''JUMP_ABSOLUTE'', 113), (''POP_JUMP_IF_FALSE'', 114), (''POP_JUMP_IF_TRUE'', 115),
      (''LOAD_GLOBAL'', 116), (''CONTINUE_LOOP'', 119), (''SETUP_LOOP'', 120),
      (''SETUP_EXCEPT'', 121), (''SETUP_FINALLY'', 122), (''LOAD_FAST'', 124),
      (''STORE_FAST'', 125), (''DELETE_FAST'', 126), (''RAISE_VARARGS'', 130),
      (''STORE_DEREF'', 137), (''DELETE_DEREF'', 138), (''SETUP_WITH'', 143)]"

definition py32 :: opcode_module where
  "py32 = \<lparr>opmap = (\<lambda>n. case map_of py32_opmap n of Some v \<Rightarrow> v | None \<Rightarrow> - 1),
           HAVE_ARGUMENT = 90,
           hasjrel = [93, 110, 120, 121, 122, 143],
           hasjabs = [111, 112, 113, 114, 115, 119]\<rparr>"

text \<open>
  The byte string of \<^verbatim>\<open>POP_JUMP_IF_FALSE 4; RETURN_VALUE; RETURN_VALUE\<close>, with the
  instructions at the positions 0, 3 and 4.
\<close>

definition ex_bytes :: "8 word list" where
  "ex_bytes = [114, 4, 0, 83, 83]"

definition ex_seq :: "instr list" where
  "ex_seq = [(0, 114, Some 4), (3, 83, None), (4, 83, None)]"

definition ex_code :: Code where
  "ex_code = \<lparr>code_id = 0, instr_seq = ex_seq, instr_map = make_instr_map ex_seq,
              else_jumps = Some {0}\<rparr>"

definition ex_addr0 :: Address where
  "ex_addr0 = \<lparr>code = ex_code, index = 0, addr = 0, opcode = 114, arg = Some 4\<rparr>"

text \<open>
  A second code object, \<^verbatim>\<open>JUMP_FORWARD 1; RETURN_VALUE; RETURN_VALUE\<close>, for a relative
  jump: the successor of the jump is at position 3, and the jump leads to position 4.
\<close>

definition ex_jf_seq :: "instr list" where
  "ex_jf_seq = [(0, 110, Some 1), (3, 83, None), (4, 83, None)]"

definition ex_jf_code :: Code where
  "ex_jf_code = \<lparr>code_id = 1, instr_seq = ex_jf_seq, instr_map = make_instr_map ex_jf_seq,
                 else_jumps = Some {}\<rparr>"

definition ex_jf_addr0 :: Address where
  "ex_jf_addr0 = \<lparr>code = ex_jf_code, index = 0, addr = 0, opcode = 110, arg = Some 1\<rparr>"

definition ex_jf_addr1 :: Address where
  "ex_jf_addr1 = \<lparr>code = ex_jf_code, index = 1, addr = 3, opcode = 83, arg = None\<rparr>"

text \<open>
  Concrete states: a decompiler whose stack holds the names \<^verbatim>\<open>b\<close> and \<^verbatim>\<open>a\<close> (as before
  the \<^verbatim>\<open>ROT_TWO\<close> of \<^verbatim>\<open>a, b = b, a\<close>), and one whose stack holds the same object
  \<^verbatim>\<open>u\<close> twice (as before the \<^verbatim>\<open>UNPACK_SEQUENCE\<close> of \<^verbatim>\<open>a, b = x = u\<close>, after
  \<^verbatim>\<open>DUP_TOP\<close>).
\<close>

definition ex_dec :: SuiteDecompiler where
  "ex_dec = \<lparr>stack = \<lparr>p_stack = [PyName 1 ''b'', PyName 2 ''a''], p_counts = [(1, 1), (2, 1)]\<rparr>,
             suite = [], assignment_chain = [], popjump_stack = [], unpacks = [],
             next_id = 10\<rparr>"

definition ex_dup :: SuiteDecompiler where
  "ex_dup = \<lparr>stack = \<lparr>p_stack = [PyName 3 ''u'', PyName 3 ''u''], p_counts = [(3, 2)]\<rparr>,
             suite = [], assignment_chain = [], popjump_stack = [], unpacks = [],
             next_id = 10\<rparr>"

definition ex_builtins :: builtins where
  "ex_builtins = \<lparr>repr = (\<lambda>v. ''<const>''), object_str = (\<lambda>i. ''<object>'')\<rparr>"

text \<open>
  The third address of the code object \<open>ex_jf_code\<close>, and a decompiler with one pending
  entry: the condition \<^verbatim>\<open>p\<close>, to be combined with \<^verbatim>\<open>and\<close>, with the target \<open>a\<close>.
\<close>

definition ex_jf_addr2 :: Address where
  "ex_jf_addr2 = \<lparr>code = ex_jf_code, index = 2, addr = 4, opcode = 83, arg = None\<rparr>"

definition ex_pending :: "Address \<Rightarrow> SuiteDecompiler" where
  "ex_pending a = ex_dec\<lparr>popjump_stack := [(False, Some a, PyName 7 ''p'')]\<rparr>"

text \<open>
  The nodes of \<^verbatim>\<open>a < b\<close> and \<^verbatim>\<open>b < c\<close>, with the name \<^verbatim>\<open>b\<close> loaded twice (the second
  comparison holds another \<^verbatim>\<open>PyName\<close> object of the same name).
\<close>

definition ex_left :: pyobj where
  "ex_left = PyCompare 4 [PyName 1 ''a'', PyStr 0 ''<'', PyName 2 ''b'']"

definition ex_right :: pyobj where
  "ex_right = PyCompare 7 [PyName 5 ''b'', PyStr 0 ''<'', PyName 6 ''c'']"

text \<open>
  The code object of \<^verbatim>\<open>a < b < c\<close>, as the compiler of Python 3.2 lays it out:
  \<^verbatim>\<open>LOAD_NAME a; LOAD_NAME b; DUP_TOP; ROT_THREE; COMPARE_OP <; JUMP_IF_FALSE_OR_POP 23;
  LOAD_NAME c; COMPARE_OP <; JUMP_FORWARD 2; ROT_TWO; POP_TOP; RETURN_VALUE\<close>, with the
  addresses of the \<^verbatim>\<open>JUMP_IF_FALSE_OR_POP\<close>, of its target, of the start and of the end
  of the right operand.
\<close>

definition ex_chain_bytes :: "8 word list" where
  "ex_chain_bytes =
     [101, 0, 0, 101, 1, 0, 4, 3, 107, 0, 0, 111, 23, 0, 101, 2, 0, 107, 0, 0, 110, 2, 0,
      2, 1, 83]"

definition ex_chain_seq :: "instr list" where
  "ex_chain_seq =
     [(0, 101, Some 0), (3, 101, Some 1), (6, 4, None), (7, 3, None), (8, 107, Some 0),
      (11, 111, Some 23), (14, 101, Some 2), (17, 107, Some 0), (20, 110, Some 2),
      (23, 2, None), (24, 1, None), (25, 83, None)]"

definition ex_chain_code :: Code where
  "ex_chain_code = \<lparr>code_id = 2, instr_seq = ex_chain_seq,
                    instr_map = make_instr_map ex_chain_seq, else_jumps = Some {}\<rparr>"

definition ex_chain_jump :: Address where
  "ex_chain_jump = \<lparr>code = ex_chain_code, index = 5, addr = 11, opcode = 111, arg = Some 23\<rparr>"

definition ex_chain_target :: Address where
  "ex_chain_target = \<lparr>code = ex_chain_code, index = 9, addr = 23, opcode = 2, arg = None\<rparr>"

definition ex_chain_start :: Address where
  "ex_chain_start = \<lparr>code = ex_chain_code, index = 6, addr = 14, opcode = 101, arg = Some 2\<rparr>"

definition ex_chain_end :: Address where
  "ex_chain_end = \<lparr>code = ex_chain_code, index = 11, addr = 25, opcode = 83, arg = None\<rparr>"

text \<open>
  The decompiler when it reaches that \<^verbatim>\<open>JUMP_IF_FALSE_OR_POP\<close>: the stack holds the
  name \<^verbatim>\<open>b\<close> and, on top, the comparison \<^verbatim>\<open>a < b\<close> around the same object \<^verbatim>\<open>b\<close>.
\<close>

definition ex_chain_left :: pyobj where
  "ex_chain_left = PyCompare 4 [PyName 1 ''a'', PyStr 0 ''<'', PyName 2 ''b'']"

definition ex_chain_dec :: SuiteDecompiler where
  "ex_chain_dec =
     \<lparr>stack = \<lparr>p_stack = [PyName 2 ''b'', ex_chain_left], p_counts = [(2, 1), (4, 1)]\<rparr>,
      suite = [], assignment_chain = [], popjump_stack = [], unpacks = [], next_id = 10\<rparr>"

text \<open>
  What the run of the right operand \<^verbatim>\<open>LOAD_NAME c; COMPARE_OP <; JUMP_FORWARD 2\<close> does
  to the shared stack: the operand on top becomes the left side of a new comparison
  with the name \<^verbatim>\<open>c\<close>. The handlers of these three opcodes are not modelled; this
  function stands for their run in the concrete instance only.
\<close>

definition ex_chain_run ::
  "Address \<Rightarrow> Address option \<Rightarrow> SuiteDecompiler \<Rightarrow> error + SuiteDecompiler" where
  "ex_chain_run start_addr end_addr d =
     (case stack_pop d of
        Inl e \<Rightarrow> Inl e
      | Inr (x, d1) \<Rightarrow>
          stack_push (d1\<lparr>next_id := Suc (next_id d1)\<rparr>)
            [PyCompare (next_id d1) [x, PyStr 0 ''<'', PyName 6 ''c'']])"


section \<open>Properties\<close>

subsection \<open>Addresses\<close>

lemma map_of_dict_setitem: "map_of (dict_setitem d k v) = (map_of d)(k \<mapsto> v)"
  by (induction d) auto

lemma set_dict_setitem: "set (dict_setitem d k v) \<subseteq> insert (k, v) (set d)"
  by (induction d) (auto split: if_splits)

lemma dict_values_setitem: "dict_values (dict_setitem d k v) \<subseteq> insert v (dict_values d)"
  using set_dict_setitem [of d k v] unfolding dict_values_def by force

lemma map_of_dict_values: "map_of d k = Some v \<Longrightarrow> v \<in> dict_values d"
  by (auto simp: dict_values_def dest: map_of_SomeD intro: rev_image_eqI)

lemma make_instr_map_snoc:
  "make_instr_map (s @ [x]) = dict_setitem (make_instr_map s) (fst x) (int (length s))"
  by (simp add: make_instr_map_def)

lemma make_instr_map_Some:
  "map_of (make_instr_map s) p = Some i \<Longrightarrow> 0 \<le> i \<and> i < int (length s) \<and> fst (s ! nat i) = p"
proof (induction s arbitrary: i rule: rev_induct)
  case Nil
  then show ?case by (simp add: make_instr_map_def)
next
  case (snoc x s)
  show ?case
  proof (cases "fst x = p")
    case True
    with snoc.prems have "i = int (length s)"
      by (simp add: make_instr_map_snoc map_of_dict_setitem)
    with True show ?thesis by simp
  next
    case False
    with snoc.prems have "map_of (make_instr_map s) p = Some i"
      by (simp add: make_instr_map_snoc map_of_dict_setitem)
    from snoc.IH [OF this] show ?thesis by (auto simp: nth_append)
  qed
qed

lemma make_instr_map_dom:
  "p \<in> fst ` set s \<Longrightarrow> \<exists>i. map_of (make_instr_map s) p = Some i"
  by (induction s rule: rev_induct)
     (auto simp: make_instr_map_snoc map_of_dict_setitem)

lemma make_instr_map_None:
  "p \<notin> fst ` set s \<Longrightarrow> map_of (make_instr_map s) p = None"
  by (induction s rule: rev_induct)
     (auto simp: make_instr_map_snoc map_of_dict_setitem make_instr_map_def)

lemma Code_getitem_in_range:
  "0 \<le> i \<Longrightarrow> i < int (length (instr_seq c)) \<Longrightarrow>
   Code_getitem c i = Inr (Some \<lparr>code = c, index = i, addr = fst (instr_seq c ! nat i),
     opcode = fst (snd (instr_seq c ! nat i)), arg = snd (snd (instr_seq c ! nat i))\<rparr>)"
  by (simp add: Code_getitem_def Address_init_def ebind_def split: prod.splits)

lemma Code_getitem_out_of_range:
  "i < 0 \<or> int (length (instr_seq c)) \<le> i \<Longrightarrow> Code_getitem c i = Inr None"
  by (auto simp add: Code_getitem_def)

text \<open>
  Claim C10. For an address \<open>a\<close> and an integer \<open>k\<close>, the subscript \<^verbatim>\<open>a[k]\<close>
  returns None, and raises nothing, when \<open>index a + k\<close> is negative or not below the
  number of instructions of the code object; otherwise it returns the address of the same
  code object at index \<open>index a + k\<close>, whose position, opcode and argument are those of
  that instruction.
\<close>

theorem Address_getitem_index_relative:
  "(index a + k < 0 \<or> int (length (instr_seq (code a))) \<le> index a + k
      \<longrightarrow> Address_getitem a k = Inr None)
   \<and> (0 \<le> index a + k \<and> index a + k < int (length (instr_seq (code a)))
      \<longrightarrow> (\<exists>b. Address_getitem a k = Inr (Some b) \<and> code b = code a
             \<and> index b = index a + k
             \<and> (addr b, opcode b, arg b) = instr_seq (code a) ! nat (index a + k)))"
  unfolding Address_getitem_def
  by (auto simp: Code_getitem_in_range Code_getitem_out_of_range)

theorem Address_getitem_index_relative_witness:
  "Address_getitem ex_addr0 5 = Inr None \<and> Address_getitem ex_addr0 (- 1) = Inr None
   \<and> (\<exists>b. Address_getitem ex_addr0 2 = Inr (Some b) \<and> code b = ex_code \<and> index b = 2
          \<and> (addr b, opcode b, arg b) = (4, 83, None))"
  using Address_getitem_index_relative [of ex_addr0 5]
    Address_getitem_index_relative [of ex_addr0 "- 1"]
    Address_getitem_index_relative [of ex_addr0 2]
  by (simp add: ex_addr0_def ex_code_def ex_seq_def)

lemma Code_address_built:
  assumes "instr_map_built c"
  shows "(p \<in> fst ` set (instr_seq c) \<longrightarrow>
            (\<exists>b. Code_address c p = Inr (Some b) \<and> code b = c \<and> addr b = p
                 \<and> 0 \<le> index b \<and> index b < int (length (instr_seq c))
                 \<and> (addr b, opcode b, arg b) = instr_seq c ! nat (index b)))
       \<and> (p \<notin> fst ` set (instr_seq c) \<longrightarrow> Code_address c p = Inl KeyError)"
proof (intro conjI impI)
  assume "p \<in> fst ` set (instr_seq c)"
  then obtain i where i: "map_of (make_instr_map (instr_seq c)) p = Some i"
    using make_instr_map_dom by blast
  from make_instr_map_Some [OF i] i assms
  show "\<exists>b. Code_address c p = Inr (Some b) \<and> code b = c \<and> addr b = p
         \<and> 0 \<le> index b \<and> index b < int (length (instr_seq c))
         \<and> (addr b, opcode b, arg b) = instr_seq c ! nat (index b)"
    by (auto simp add: Code_address_def instr_map_built_def Code_getitem_in_range
        intro: prod_eqI)
next
  assume "p \<notin> fst ` set (instr_seq c)"
  with assms show "Code_address c p = Inl KeyError"
    by (simp add: Code_address_def instr_map_built_def make_instr_map_None)
qed

text \<open>The constructor builds the position dictionary that the theorems below ask for.\<close>

lemma Code_init_built: "Code_init T cid co_code = Inr c \<Longrightarrow> instr_map_built c"
  by (auto simp: Code_init_def ebind_def instr_map_built_def Let_def split: sum.splits)

text \<open>
  Claim C5, as the code has it. \<^verbatim>\<open>a + k\<close> is relative to the byte position, not to the
  index: on a code object whose position dictionary is the one \<^verbatim>\<open>__init__\<close> built, it
  yields the address of the same code object whose position is \<open>addr a + k\<close> when an
  instruction starts there, and raises KeyError when none does. The index-relative
  operation is the subscript \<^verbatim>\<open>a[k]\<close>.
\<close>

theorem Address_add_position_relative:
  assumes "instr_map_built (code a)"
  shows "(addr a + k \<in> fst ` set (instr_seq (code a)) \<longrightarrow>
            (\<exists>b. Address_add a k = Inr (Some b) \<and> code b = code a \<and> addr b = addr a + k))
       \<and> (addr a + k \<notin> fst ` set (instr_seq (code a)) \<longrightarrow> Address_add a k = Inl KeyError)"
  using Code_address_built [OF assms, of "addr a + k"]
  unfolding Address_add_def by blast

theorem Address_add_position_relative_witness:
  "instr_map_built (code ex_addr0)
   \<and> (\<exists>b. Address_add ex_addr0 3 = Inr (Some b) \<and> code b = code ex_addr0 \<and> addr b = 3)
   \<and> Address_add ex_addr0 1 = Inl KeyError"
proof -
  have b: "instr_map_built (code ex_addr0)"
    by (simp add: instr_map_built_def ex_code_def ex_addr0_def)
  show ?thesis
    using b Address_add_position_relative [OF b, of 3] Address_add_position_relative [OF b, of 1]
    by (simp add: ex_addr0_def ex_code_def ex_seq_def)
qed

text \<open>
  Claim C5 as stated fails. In the code object \<open>ex_code\<close> the instructions are at the
  positions 0, 3 and 4. From the address of index 0, \<^verbatim>\<open>a + 3\<close> is the address of index 1,
  not what the index \<open>0 + 3\<close> gives, and \<^verbatim>\<open>a + 1\<close> raises KeyError although index 1
  exists.
\<close>

theorem Address_add_index_counterexample:
  "Address_init ex_code 0 = Inr ex_addr0
   \<and> Address_add ex_addr0 3 = Code_getitem ex_code 1
   \<and> Address_add ex_addr0 3 \<noteq> Code_getitem ex_code (index ex_addr0 + 3)
   \<and> Address_add ex_addr0 1 = Inl KeyError"
  by (simp add: ex_addr0_def ex_code_def ex_seq_def Address_init_def Address_add_def
      Code_address_def Code_getitem_def make_instr_map_def ebind_def)

lemma Code_getitem_Some:
  "Code_getitem c i = Inr (Some b) \<Longrightarrow>
     code b = c \<and> index b = i \<and> 0 \<le> i \<and> i < int (length (instr_seq c))
     \<and> (addr b, opcode b, arg b) = instr_seq c ! nat i"
  by (auto simp: Code_getitem_def Address_init_def ebind_def split: if_splits prod.splits)

text \<open>
  Claim C4. On a code object whose position dictionary is the one \<^verbatim>\<open>__init__\<close> built:
  for an opcode of \<^verbatim>\<open>dis.hasjrel\<close>, with \<open>s\<close> the successor \<^verbatim>\<open>self[1]\<close> and \<open>k\<close> the
  argument, \<^verbatim>\<open>jump()\<close> returns the address whose byte position is \<open>addr s + k\<close>; for an
  opcode of \<^verbatim>\<open>dis.hasjabs\<close> (and not of \<^verbatim>\<open>dis.hasjrel\<close>, which is tested first) with
  argument \<open>p\<close>, it returns the address whose byte position is \<open>p\<close>. In both cases the
  result is an address of the same code object, carrying the instruction at its index.
  The position has to be the start of an instruction; otherwise the lookup raises.
\<close>

theorem Address_jump_target:
  assumes "instr_map_built (code a)"
  shows "(opcode a \<in> set (hasjrel T) \<and> Address_getitem a 1 = Inr (Some s) \<and> arg a = Some k
            \<and> addr s + k \<in> fst ` set (instr_seq (code a))
          \<longrightarrow> (\<exists>b. Address_jump T a = Inr (Some b) \<and> code b = code a \<and> addr b = addr s + k
                 \<and> (addr b, opcode b, arg b) = instr_seq (code a) ! nat (index b)))
       \<and> (opcode a \<notin> set (hasjrel T) \<and> opcode a \<in> set (hasjabs T) \<and> arg a = Some p
            \<and> p \<in> fst ` set (instr_seq (code a))
          \<longrightarrow> (\<exists>b. Address_jump T a = Inr (Some b) \<and> code b = code a \<and> addr b = p
                 \<and> (addr b, opcode b, arg b) = instr_seq (code a) ! nat (index b)))"
proof (intro conjI impI)
  assume h: "opcode a \<in> set (hasjrel T) \<and> Address_getitem a 1 = Inr (Some s) \<and> arg a = Some k
            \<and> addr s + k \<in> fst ` set (instr_seq (code a))"
  then have cs: "code s = code a"
    using Code_getitem_Some [of "code a" "index a + 1" s] by (simp add: Address_getitem_def)
  from h have "Address_jump T a = Address_add s k"
    by (simp add: Address_jump_def ebind_def)
  moreover from Code_address_built [OF assms, of "addr s + k"] h cs
  obtain b where "Address_add s k = Inr (Some b)" "code b = code a" "addr b = addr s + k"
      "(addr b, opcode b, arg b) = instr_seq (code a) ! nat (index b)"
    unfolding Address_add_def by auto
  ultimately show "\<exists>b. Address_jump T a = Inr (Some b) \<and> code b = code a \<and> addr b = addr s + k
                 \<and> (addr b, opcode b, arg b) = instr_seq (code a) ! nat (index b)"
    by simp
next
  assume h: "opcode a \<notin> set (hasjrel T) \<and> opcode a \<in> set (hasjabs T) \<and> arg a = Some p
            \<and> p \<in> fst ` set (instr_seq (code a))"
  then have "Address_jump T a = Code_address (code a) p"
    by (simp add: Address_jump_def)
  with Code_address_built [OF assms, of p] h
  show "\<exists>b. Address_jump T a = Inr (Some b) \<and> code b = code a \<and> addr b = p
                 \<and> (addr b, opcode b, arg b) = instr_seq (code a) ! nat (index b)"
    by auto
qed

theorem Address_jump_target_witness:
  "instr_map_built (code ex_jf_addr0) \<and> instr_map_built (code ex_addr0)
   \<and> Address_getitem ex_jf_addr0 1 = Inr (Some ex_jf_addr1) \<and> addr ex_jf_addr1 = 3
   \<and> (\<exists>b. Address_jump py32 ex_jf_addr0 = Inr (Some b) \<and> code b = ex_jf_code \<and> addr b = 4
          \<and> index b = 2)
   \<and> (\<exists>b. Address_jump py32 ex_addr0 = Inr (Some b) \<and> code b = ex_code \<and> addr b = 4
          \<and> index b = 2)"
proof -
  have b1: "instr_map_built (code ex_jf_addr0)"
    by (simp add: instr_map_built_def ex_jf_code_def ex_jf_addr0_def)
  have b2: "instr_map_built (code ex_addr0)"
    by (simp add: instr_map_built_def ex_code_def ex_addr0_def)
  have s: "Address_getitem ex_jf_addr0 1 = Inr (Some ex_jf_addr1)"
    by (simp add: Address_getitem_def Code_getitem_def Address_init_def ebind_def
        ex_jf_addr0_def ex_jf_addr1_def ex_jf_code_def ex_jf_seq_def)
  have j1: "Address_jump py32 ex_jf_addr0 = Code_getitem ex_jf_code 2"
    by (simp add: Address_jump_def Address_getitem_def Code_getitem_def Address_init_def
        ebind_def Address_add_def Code_address_def make_instr_map_def py32_def
        ex_jf_addr0_def ex_jf_code_def ex_jf_seq_def)
  have j2: "Address_jump py32 ex_addr0 = Code_getitem ex_code 2"
    by (simp add: Address_jump_def Address_getitem_def Code_getitem_def Address_init_def
        ebind_def Address_add_def Code_address_def make_instr_map_def py32_def
        ex_addr0_def ex_code_def ex_seq_def)
  have g1: "\<And>b. Code_getitem ex_jf_code 2 = Inr (Some b) \<Longrightarrow> index b = 2"
    by (auto simp: Code_getitem_def Address_init_def ebind_def ex_jf_code_def ex_jf_seq_def)
  have g2: "\<And>b. Code_getitem ex_code 2 = Inr (Some b) \<Longrightarrow> index b = 2"
    by (auto simp: Code_getitem_def Address_init_def ebind_def ex_code_def ex_seq_def)
  from Address_jump_target [OF b1, of py32 ex_jf_addr1 1 0]
  have r1: "\<exists>b. Address_jump py32 ex_jf_addr0 = Inr (Some b) \<and> code b = ex_jf_code \<and> addr b = 4
          \<and> index b = 2"
    using s g1 j1
    by (auto simp: ex_jf_addr0_def ex_jf_addr1_def ex_jf_code_def ex_jf_seq_def py32_def)
  from Address_jump_target [OF b2, of py32 ex_addr0 0 4]
  have r2: "\<exists>b. Address_jump py32 ex_addr0 = Inr (Some b) \<and> code b = ex_code \<and> addr b = 4
          \<and> index b = 2"
    using g2 j2
    by (auto simp: ex_addr0_def ex_code_def ex_seq_def py32_def)
  show ?thesis using b1 b2 s r1 r2 by (simp add: ex_jf_addr1_def)
qed

subsection \<open>The pass find_else\<close>

lemma efoldl_invariant:
  assumes "efoldl f s xs = Inr s'" and "P s"
    and "\<And>s x s'. x \<in> set xs \<Longrightarrow> P s \<Longrightarrow> f s x = Inr s' \<Longrightarrow> P s'"
  shows "P s'"
  using assms
proof (induction xs arbitrary: s)
  case Nil
  then show ?case by simp
next
  case (Cons x xs)
  from Cons.prems(1) obtain s1 where s1: "f s x = Inr s1" "efoldl f s1 xs = Inr s'"
    by (auto split: sum.splits)
  have "P s1" using Cons.prems(3) [of x s s1] Cons.prems(2) s1 by simp
  then show ?case
  proof (rule Cons.IH [OF s1(2)])
    fix t y t'
    assume "y \<in> set xs" "P t" "f t y = Inr t'"
    then show "P t'" using Cons.prems(3) [of y t t'] by simp
  qed
qed

lemma jumps_ok_keep:
  "jumps_ok T c (jumps, last_jump) \<Longrightarrow> map_of jumps k = Some v
     \<Longrightarrow> jumps_ok T c (dict_setitem jumps k' v, last_jump)"
  using dict_values_setitem [of jumps k' v] map_of_dict_values [of jumps k v]
  unfolding jumps_ok_def by (simp add: subset_iff) blast

lemma jumps_ok_last:
  "jumps_ok T c (jumps, Some v) \<Longrightarrow> jumps_ok T c (dict_setitem jumps k' v, Some v)"
  using dict_values_setitem [of jumps k' v]
  unfolding jumps_ok_def by (simp add: subset_iff) blast

lemma jumps_ok_new:
  "jumps_ok T c (jumps, last_jump) \<Longrightarrow> 0 \<le> v \<Longrightarrow> v < int (length (instr_seq c))
     \<Longrightarrow> else_jump_test T c v \<Longrightarrow> jumps_ok T c (dict_setitem jumps k' v, Some v)"
  using dict_values_setitem [of jumps k' v]
  unfolding jumps_ok_def by (simp add: subset_iff) blast

lemma find_else_step_ok:
  assumes "i < length (instr_seq c)" and "jumps_ok T c st" and "find_else_step T c st i = Inr st'"
  shows "jumps_ok T c st'"
proof -
  obtain jumps last_jump where st: "st = (jumps, last_jump)" by (cases st)
  obtain a where a: "Address_init c (int i) = Inr a" "index a = int i"
    using assms(1) by (cases "instr_seq c ! i") (auto simp: Address_init_def)
  have ok: "jumps_ok T c (jumps, last_jump)" using assms(2) st by simp
  consider (cond) "opcode a \<in> set (pop_jump_if_opcodes T)"
    | (abs) "opcode a \<notin> set (pop_jump_if_opcodes T)" "opcode a = opmap T ''JUMP_ABSOLUTE''"
    | (stmt) "opcode a \<notin> set (pop_jump_if_opcodes T)" "opcode a \<noteq> opmap T ''JUMP_ABSOLUTE''"
        "opcode a \<in> stmt_opcodes T \<and> last_jump \<noteq> None"
    | (other) "opcode a \<notin> set (pop_jump_if_opcodes T)" "opcode a \<noteq> opmap T ''JUMP_ABSOLUTE''"
        "\<not> (opcode a \<in> stmt_opcodes T \<and> last_jump \<noteq> None)"
    by blast
  then show ?thesis
  proof cases
    case cond
    from assms(3) cond a obtain p j prev where
      p: "arg a = Some p" and j: "Code_address c p = Inr (Some j)"
      and prev: "Address_getitem j (- 1) = Inr (Some prev)"
      and res: "st' = (if opcode prev \<in> set (else_jump_opcodes T)
                          \<or> opcode j = opmap T ''FOR_ITER''
                       then (dict_setitem jumps (index j) (index a), Some (index a))
                       else (jumps, last_jump))"
      unfolding st find_else_step_def ebind_def
      by (simp split: option.splits sum.splits) (auto split: if_splits)
    show ?thesis
    proof (cases "opcode prev \<in> set (else_jump_opcodes T) \<or> opcode j = opmap T ''FOR_ITER''")
      case True
      have "else_jump_test T c (int i)"
        using a cond p j prev True by (simp add: else_jump_test_def)
      with True res ok a assms(1) show ?thesis
        by (simp add: jumps_ok_new)
    next
      case False
      with res ok show ?thesis by simp
    qed
  next
    case abs
    from assms(3) abs a have
      "(\<exists>k v. map_of jumps k = Some v \<and> st' = (dict_setitem jumps (index a) v, last_jump))
       \<or> st' = (jumps, last_jump)"
      unfolding st find_else_step_def ebind_def
      by (simp split: option.splits sum.splits) blast+
    with ok show ?thesis by (auto intro: jumps_ok_keep)
  next
    case stmt
    then obtain v where v: "last_jump = Some v" by auto
    from assms(3) stmt a v have "st' = (dict_setitem jumps (index a) v, Some v)"
      unfolding st find_else_step_def ebind_def by simp
    with ok v show ?thesis by (simp add: jumps_ok_last)
  next
    case other
    from assms(3) other a have "st' = (jumps, last_jump)"
      unfolding st find_else_step_def ebind_def by auto
    with ok show ?thesis by simp
  qed
qed

text \<open>
  Claim C1, as the code has it. \<^verbatim>\<open>else_jumps\<close> is \<^verbatim>\<open>set(jumps.values())\<close>, and the values
  of \<^verbatim>\<open>jumps\<close> are the conditional jumps, not their targets (the targets are among the
  keys). Every member of the set that \<^verbatim>\<open>find_else\<close> returns is the index of an
  instruction of the code object that is a \<^verbatim>\<open>POP_JUMP_IF_TRUE\<close> or
  \<^verbatim>\<open>POP_JUMP_IF_FALSE\<close> whose target follows an instruction of \<^verbatim>\<open>else_jump_opcodes\<close>
  or is a \<^verbatim>\<open>FOR_ITER\<close>.
\<close>

theorem find_else_members:
  assumes "find_else T c = Inr S"
  shows "\<forall>i \<in> S. 0 \<le> i \<and> i < int (length (instr_seq c)) \<and> else_jump_test T c i"
proof -
  from assms obtain st where
    st: "efoldl (find_else_step T c) ([], None) [0..<length (instr_seq c)] = Inr st"
    and S: "S = dict_values (fst st)"
    by (auto simp: find_else_def ebind_def split: sum.splits)
  have "jumps_ok T c st"
  proof (rule efoldl_invariant [OF st])
    show "jumps_ok T c ([], None)" by (simp add: jumps_ok_def dict_values_def)
  next
    fix s x s'
    assume "x \<in> set [0..<length (instr_seq c)]" "jumps_ok T c s" "find_else_step T c s x = Inr s'"
    then show "jumps_ok T c s'" using find_else_step_ok [of x c T s s'] by simp
  qed
  with S show ?thesis by (simp add: jumps_ok_def)
qed

theorem find_else_members_witness:
  "find_else py32 ex_code = Inr {0} \<and> (0::int) < int (length (instr_seq ex_code))
   \<and> else_jump_test py32 ex_code 0"
proof -
  have f: "find_else py32 ex_code = Inr {0}" by code_simp
  from find_else_members [OF f] f show ?thesis by simp
qed

text \<open>
  Claim C1 as stated fails. For \<^verbatim>\<open>POP_JUMP_IF_FALSE 4; RETURN_VALUE; RETURN_VALUE\<close> the
  only conditional jump is instruction 0 and its target is instruction 2; the set
  \<^verbatim>\<open>else_jumps\<close> that \<^verbatim>\<open>Code.__init__\<close> computes is \<open>{0}\<close>: the jump, which is the
  target of no conditional jump.
\<close>

theorem find_else_targets_counterexample:
  "Code_init py32 0 ex_bytes = Inr ex_code \<and> else_jumps ex_code = Some {0}
   \<and> cond_jump_targets py32 ex_code = [2] \<and> 0 \<notin> set (cond_jump_targets py32 ex_code)"
  by code_simp

subsection \<open>The counts of the evaluation stack\<close>

lemma dict_setitem_distinct:
  "distinct (map fst d) \<Longrightarrow> distinct (map fst (dict_setitem d k v))"
proof (induction d)
  case Nil
  then show ?case by simp
next
  case (Cons p d)
  have "fst ` set (dict_setitem d k v) \<subseteq> insert k (fst ` set d)"
    using set_dict_setitem [of d k v] by force
  with Cons show ?case by (cases p) auto
qed

lemma dict_delitem_ok:
  "k \<in> fst ` set d \<Longrightarrow> \<exists>d'. dict_delitem d k = Inr d'"
proof (induction d)
  case Nil
  then show ?case by simp
next
  case (Cons p d)
  obtain k' v' where p: "p = (k', v')" by (cases p)
  show ?case
  proof (cases "k' = k")
    case True
    then show ?thesis by (simp add: p)
  next
    case False
    with Cons.prems have "k \<in> fst ` set d" by (auto simp: p)
    from Cons.IH [OF this] False show ?thesis by (auto simp: p)
  qed
qed

lemma dict_delitem_subset:
  "dict_delitem d k = Inr d' \<Longrightarrow> set d' \<subseteq> set d"
proof (induction d arbitrary: d')
  case Nil
  then show ?case by simp
next
  case (Cons p d)
  obtain k' v' where p: "p = (k', v')" by (cases p)
  show ?case
  proof (cases "k' = k")
    case True
    with Cons.prems show ?thesis by (auto simp: p)
  next
    case False
    with Cons.prems obtain d1 where d1: "dict_delitem d k = Inr d1" "d' = (k', v') # d1"
      by (auto simp: p split: sum.splits)
    from Cons.IH [OF d1(1)] d1(2) show ?thesis by (auto simp: p)
  qed
qed

lemma dict_delitem_map_of:
  "distinct (map fst d) \<Longrightarrow> dict_delitem d k = Inr d' \<Longrightarrow>
     map_of d' = (map_of d)(k := None) \<and> distinct (map fst d')"
proof (induction d arbitrary: d')
  case Nil
  then show ?case by simp
next
  case (Cons p d)
  obtain k' v' where p: "p = (k', v')" by (cases p)
  from Cons.prems have dd: "distinct (map fst d)" and nk: "k' \<notin> fst ` set d" by (auto simp: p)
  show ?case
  proof (cases "k' = k")
    case True
    with Cons.prems have "d' = d" by (simp add: p)
    moreover have "map_of d k = None" using nk True by (simp add: map_of_eq_None_iff)
    ultimately show ?thesis using True dd by (auto simp: p fun_eq_iff)
  next
    case False
    with Cons.prems obtain d1 where d1: "dict_delitem d k = Inr d1" "d' = (k', v') # d1"
      by (auto simp: p split: sum.splits)
    from Cons.IH [OF dd d1(1)] have ih: "map_of d1 = (map_of d)(k := None)" "distinct (map fst d1)"
      by blast+
    from dict_delitem_subset [OF d1(1)] nk have "k' \<notin> fst ` set d1" by force
    with ih d1(2) False show ?thesis by (auto simp: p fun_eq_iff)
  qed
qed

lemma occurrences_append [simp]:
  "occurrences (xs @ ys) k = occurrences xs k + occurrences ys k"
  by (simp add: occurrences_def)

lemma occurrences_single [simp]:
  "occurrences [v] k = (if oid v = k then 1 else 0)"
  by (simp add: occurrences_def)

lemma occurrences_nonneg [simp]: "0 \<le> occurrences xs k"
  by (simp add: occurrences_def)

lemma occurrences_zero: "occurrences xs k = 0 \<longleftrightarrow> k \<notin> oid ` set xs"
  by (auto simp: occurrences_def filter_empty_conv)

lemma Stack_ok_init: "Stack_ok Stack_init"
  by (simp add: Stack_ok_def Stack_init_def)

lemma Stack_ok_get_count:
  assumes "Stack_ok st"
  shows "get_count st x = occurrences (p_stack st) (oid x)"
proof (cases "map_of (p_counts st) (oid x)")
  case None
  then have "oid x \<notin> fst ` set (p_counts st)" by (simp add: map_of_eq_None_iff)
  with assms have "oid x \<notin> oid ` set (p_stack st)" by (auto simp: Stack_ok_def)
  then have "occurrences (p_stack st) (oid x) = 0" by (simp add: occurrences_zero)
  with None show ?thesis by (simp add: get_count_def)
next
  case (Some n)
  then have "(oid x, n) \<in> set (p_counts st)" by (rule map_of_SomeD)
  with assms have "n = occurrences (p_stack st) (oid x)" by (auto simp: Stack_ok_def)
  with Some show ?thesis by (simp add: get_count_def)
qed

lemma Stack_ok_counts_map: "Stack_ok st \<longleftrightarrow> counts_map st"
proof
  assume ok: "Stack_ok st"
  then have d: "distinct (map fst (p_counts st))" by (simp add: Stack_ok_def)
  have "map_of (p_counts st) k =
          (if occurrences (p_stack st) k = 0 then None else Some (occurrences (p_stack st) k))"
    for k
  proof (cases "map_of (p_counts st) k")
    case None
    then have "k \<notin> fst ` set (p_counts st)" by (simp add: map_of_eq_None_iff)
    with ok have "k \<notin> oid ` set (p_stack st)" by (auto simp: Stack_ok_def)
    then have "occurrences (p_stack st) k = 0" by (simp add: occurrences_zero)
    with None show ?thesis by simp
  next
    case (Some n)
    then have "(k, n) \<in> set (p_counts st)" by (rule map_of_SomeD)
    with ok have "n = occurrences (p_stack st) k \<and> n \<noteq> 0" by (auto simp: Stack_ok_def)
    with Some show ?thesis by simp
  qed
  with d show "counts_map st" by (simp add: counts_map_def)
next
  assume cm: "counts_map st"
  then have d: "distinct (map fst (p_counts st))" by (simp add: counts_map_def)
  have a: "n = occurrences (p_stack st) k \<and> n \<noteq> 0" if "(k, n) \<in> set (p_counts st)" for k n
  proof -
    from that d have "map_of (p_counts st) k = Some n" by simp
    with cm show ?thesis by (auto simp: counts_map_def split: if_splits)
  qed
  have b: "oid x \<in> fst ` set (p_counts st)" if "x \<in> set (p_stack st)" for x
  proof -
    from that have "occurrences (p_stack st) (oid x) \<noteq> 0" by (auto simp: occurrences_zero)
    with cm have "map_of (p_counts st) (oid x) \<noteq> None" by (simp add: counts_map_def)
    then show ?thesis by (simp add: map_of_eq_None_iff)
  qed
  from d a b show "Stack_ok st" unfolding Stack_ok_def by blast
qed

lemma counts_map_get_count:
  "counts_map st \<Longrightarrow> get_count st x = occurrences (p_stack st) (oid x)"
  by (simp add: counts_map_def get_count_def)

lemma counts_map_push1:
  assumes "counts_map st"
  shows "\<exists>st1. set_count st v (get_count st v + 1) = Inr st1
           \<and> counts_map (st1\<lparr>p_stack := p_stack st1 @ [v]\<rparr>)
           \<and> p_stack st1 = p_stack st"
proof -
  let ?n = "occurrences (p_stack st) (oid v) + 1"
  have g: "get_count st v + 1 = ?n" using counts_map_get_count [OF assms] by simp
  have nz: "?n \<noteq> 0" using occurrences_nonneg [of "p_stack st" "oid v"] by linarith
  let ?st1 = "st\<lparr>p_counts := dict_setitem (p_counts st) (oid v) ?n\<rparr>"
  have sc: "set_count st v (get_count st v + 1) = Inr ?st1"
    using g nz by (simp add: set_count_def)
  from assms have d: "distinct (map fst (p_counts st))" by (simp add: counts_map_def)
  have "counts_map (?st1\<lparr>p_stack := p_stack ?st1 @ [v]\<rparr>)"
    using assms nz dict_setitem_distinct [OF d, of "oid v" ?n]
    by (simp add: counts_map_def map_of_dict_setitem)
  with sc show ?thesis by auto
qed

lemma counts_map_push:
  "counts_map st \<Longrightarrow> fst (push st vs) = Inr () \<and> counts_map (snd (push st vs))
     \<and> p_stack (snd (push st vs)) = p_stack st @ vs"
proof (induction vs arbitrary: st)
  case Nil
  then show ?case by simp
next
  case (Cons v vs)
  from counts_map_push1 [OF Cons.prems, of v] obtain st1 where
    st1: "set_count st v (get_count st v + 1) = Inr st1"
      "counts_map (st1\<lparr>p_stack := p_stack st1 @ [v]\<rparr>)" "p_stack st1 = p_stack st"
    by blast
  from Cons.IH [OF st1(2)] st1 show ?case by simp
qed

lemma counts_map_pop1:
  assumes "counts_map st"
  shows "(p_stack st = [] \<longrightarrow> pop1 st = (Inl IndexError, st))
       \<and> (p_stack st \<noteq> [] \<longrightarrow>
            fst (pop1 st) = Inr (last (p_stack st))
            \<and> p_stack (snd (pop1 st)) = butlast (p_stack st))
       \<and> counts_map (snd (pop1 st))"
proof (cases "p_stack st = []")
  case True
  with assms show ?thesis by (simp add: pop1_def)
next
  case False
  then obtain xs v where xs: "p_stack st = xs @ [v]"
    by (metis append_butlast_last_id)
  let ?st1 = "st\<lparr>p_stack := xs\<rparr>"
  let ?n = "occurrences xs (oid v)"
  have g: "get_count ?st1 v - 1 = ?n"
    using counts_map_get_count [OF assms, of v] xs by (simp add: get_count_def)
  from assms have d: "distinct (map fst (p_counts st))" by (simp add: counts_map_def)
  have m: "map_of (p_counts st) k =
          (if occurrences xs k + (if oid v = k then 1 else 0) = 0 then None
           else Some (occurrences xs k + (if oid v = k then 1 else 0)))" for k
    using assms xs by (simp add: counts_map_def)
  have key: "oid v \<in> fst ` set (p_counts st)"
  proof -
    have "occurrences xs (oid v) + 1 \<noteq> 0"
      using occurrences_nonneg [of xs "oid v"] by linarith
    with m [of "oid v"] have "map_of (p_counts st) (oid v) \<noteq> None" by simp
    then show ?thesis by (simp add: map_of_eq_None_iff)
  qed
  have "\<exists>st2. set_count ?st1 v ?n = Inr st2 \<and> counts_map st2 \<and> p_stack st2 = xs"
  proof (cases "?n = 0")
    case True
    from dict_delitem_ok [OF key] obtain d' where
      d': "dict_delitem (p_counts st) (oid v) = Inr d'" by blast
    from dict_delitem_map_of [OF d d'] have
      dm: "map_of d' = (map_of (p_counts st))(oid v := None)" "distinct (map fst d')"
      by blast+
    have "counts_map (?st1\<lparr>p_counts := d'\<rparr>)"
      using dm m True by (simp add: counts_map_def)
    with True d' show ?thesis by (simp add: set_count_def)
  next
    case False
    have "counts_map (?st1\<lparr>p_counts := dict_setitem (p_counts st) (oid v) ?n\<rparr>)"
      using m False dict_setitem_distinct [OF d, of "oid v" ?n]
      by (simp add: counts_map_def map_of_dict_setitem)
    with False show ?thesis by (simp add: set_count_def)
  qed
  then obtain st2 where st2: "set_count ?st1 v ?n = Inr st2" "counts_map st2" "p_stack st2 = xs"
    by blast
  have "pop1 st = (Inr v, st2)"
    using xs g st2(1) by (simp add: pop1_def Let_def)
  with xs st2 show ?thesis by simp
qed

lemma counts_map_pop_loop:
  "counts_map st \<Longrightarrow> counts_map (snd (pop_loop n st)) \<and> fst (pop_loop n st) \<noteq> Inl KeyError"
proof (induction n arbitrary: st)
  case 0
  then show ?case by simp
next
  case (Suc n)
  note p = counts_map_pop1 [OF Suc.prems]
  show ?case
  proof (cases "p_stack st = []")
    case True
    with p Suc.prems show ?thesis by simp
  next
    case False
    with p obtain st1 where st1: "pop1 st = (Inr (last (p_stack st)), st1)" "counts_map st1"
      by (cases "pop1 st") auto
    from Suc.IH [OF st1(2)] st1(1) show ?thesis
      by (cases "pop_loop n st1") (auto split: sum.splits)
  qed
qed

lemma counts_map_stack_after:
  assumes "counts_map st"
  shows "counts_map (stack_after st c) \<and> \<not> raises_KeyError st c"
proof (cases c)
  case (Push vs)
  with counts_map_push [OF assms, of vs] show ?thesis by simp
next
  case Pop
  with counts_map_pop1 [OF assms] show ?thesis by (cases "p_stack st = []") auto
next
  case (PopCount n)
  with counts_map_pop_loop [OF assms, of "nat n"] show ?thesis
    by (cases "pop_loop (nat n) st") (auto simp: pop_count_def split: sum.splits)
next
  case Peek
  with assms show ?thesis by simp
next
  case (PeekCount n)
  with assms show ?thesis by simp
qed

lemma counts_map_foldl:
  "counts_map st \<Longrightarrow> counts_map (foldl stack_after st calls)"
  by (induction calls arbitrary: st) (simp_all add: counts_map_stack_after)

text \<open>
  Claim C8. After any sequence of calls of \<^verbatim>\<open>push\<close>, \<^verbatim>\<open>pop\<close>, \<^verbatim>\<open>pop(n)\<close>, \<^verbatim>\<open>peek\<close>
  and \<^verbatim>\<open>peek(n)\<close> on a new stack, whether a call raised IndexError or not, the count
  of every object is not negative and is the number of elements of the stack that are
  this object, and \<^verbatim>\<open>in\<close> answers True exactly when the count is not zero. No further
  call raises KeyError, the exception of a \<^verbatim>\<open>del\<close> of a missing count.
\<close>

theorem Stack_counts:
  "0 \<le> get_count (foldl stack_after Stack_init calls) x
   \<and> get_count (foldl stack_after Stack_init calls) x
       = occurrences (p_stack (foldl stack_after Stack_init calls)) (oid x)
   \<and> contains (foldl stack_after Stack_init calls) x
       = (get_count (foldl stack_after Stack_init calls) x \<noteq> 0)
   \<and> \<not> raises_KeyError (foldl stack_after Stack_init calls) c"
proof -
  have "counts_map Stack_init" by (simp add: counts_map_def Stack_init_def occurrences_def)
  then have cm: "counts_map (foldl stack_after Stack_init calls)" by (rule counts_map_foldl)
  from counts_map_get_count [OF cm, of x] counts_map_stack_after [OF cm, of c]
  show ?thesis by (simp add: contains_def) (smt (verit) occurrences_nonneg)
qed

theorem Stack_counts_witness:
  "get_count (foldl stack_after Stack_init
       [Push [PyName 1 ''a'', PyName 2 ''b'', PyName 1 ''a''], Pop, PopCount 5, Push [PyName 1 ''a'']])
     (PyName 1 ''a'') = 1
   \<and> occurrences (p_stack (foldl stack_after Stack_init
       [Push [PyName 1 ''a'', PyName 2 ''b'', PyName 1 ''a''], Pop, PopCount 5, Push [PyName 1 ''a'']]))
       (oid (PyName 1 ''a'')) = 1
   \<and> contains (foldl stack_after Stack_init
       [Push [PyName 1 ''a'', PyName 2 ''b'', PyName 1 ''a''], Pop, PopCount 5, Push [PyName 1 ''a'']])
     (PyName 1 ''a'')"
  using Stack_counts [of
      "[Push [PyName 1 ''a'', PyName 2 ''b'', PyName 1 ''a''], Pop, PopCount 5, Push [PyName 1 ''a'']]"
      "PyName 1 ''a''" Pop]
  by (simp add: Stack_init_def get_count_def set_count_def pop1_def pop_count_def contains_def
      occurrences_def Let_def eval_nat_numeral)

subsection \<open>The handlers of ROT_TWO and RAISE_VARARGS\<close>

lemma counts_map_pop_loop_exact:
  "counts_map st \<Longrightarrow> p_stack st = rest @ vs \<Longrightarrow>
     \<exists>st'. pop_loop (length vs) st = (Inr (rev vs), st') \<and> counts_map st' \<and> p_stack st' = rest"
proof (induction vs arbitrary: st rule: rev_induct)
  case Nil
  then show ?case by simp
next
  case (snoc v vs)
  from counts_map_pop1 [OF snoc.prems(1)] snoc.prems(2)
  obtain st1 where st1: "pop1 st = (Inr v, st1)" "counts_map st1" "p_stack st1 = rest @ vs"
    by (cases "pop1 st") (auto simp: butlast_append)
  from snoc.IH [OF st1(2,3)] obtain st' where
    "pop_loop (length vs) st1 = (Inr (rev vs), st')" "counts_map st'" "p_stack st' = rest"
    by blast
  with st1(1) show ?case by simp
qed

lemma stack_pop_count_exact:
  assumes "counts_map (stack s)" and "p_stack (stack s) = rest @ vs"
  shows "\<exists>st'. stack_pop_count s (int (length vs)) = Inr (vs, s\<lparr>stack := st'\<rparr>)
           \<and> counts_map st' \<and> p_stack st' = rest"
  using counts_map_pop_loop_exact [OF assms]
  by (auto simp: stack_pop_count_def pop_count_def)

lemma stack_pop_exact:
  assumes "counts_map (stack s)" and "p_stack (stack s) = rest @ [v]"
  shows "\<exists>st'. stack_pop s = Inr (v, s\<lparr>stack := st'\<rparr>) \<and> counts_map st' \<and> p_stack st' = rest"
  using counts_map_pop1 [OF assms(1)] assms(2)
  by (cases "pop1 (stack s)") (auto simp: stack_pop_def)

lemma stack_push_exact:
  assumes "counts_map (stack s)"
  shows "\<exists>st'. stack_push s vs = Inr (s\<lparr>stack := st'\<rparr>) \<and> counts_map st'
           \<and> p_stack st' = p_stack (stack s) @ vs"
  using counts_map_push [OF assms, of vs]
  by (cases "push (stack s) vs") (auto simp: stack_push_def)

lemma class_dict_ROT_TWO: "map_of class_dict ''ROT_TWO'' = Some Def_ROT_TWO_unpack"
  by (simp add: class_dict_def class_body_def)

lemma ROT_TWO_unpack_result:
  assumes "counts_map (stack s)" and "p_stack (stack s) = rest @ [a, b]"
  shows "\<exists>s'. ROT_TWO_unpack s = Inr s'
          \<and> p_stack (stack s') = rest @ [Unpack (Suc (next_id s)), Unpack (Suc (next_id s))]
          \<and> map_of (unpacks s') (Suc (next_id s))
              = Some \<lparr>unpack_val = PyTuple (next_id s) [a, b], unpack_length = 2,
                      unpack_star_index = None, unpack_dests = []\<rparr>
          \<and> suite s' = suite s \<and> counts_map (stack s') \<and> next_id s' = Suc (Suc (next_id s))"
proof -
  from stack_pop_count_exact [OF assms(1), of rest "[a, b]"] assms(2)
  obtain st1 where st1: "stack_pop_count s 2 = Inr ([a, b], s\<lparr>stack := st1\<rparr>)"
      "counts_map st1" "p_stack st1 = rest"
    by auto
  let ?u = "Unpack (Suc (next_id s))"
  let ?s2 = "s\<lparr>stack := st1,
               unpacks := dict_setitem (unpacks s) (Suc (next_id s))
                 \<lparr>unpack_val = PyTuple (next_id s) [a, b], unpack_length = 2,
                  unpack_star_index = None, unpack_dests = []\<rparr>,
               next_id := Suc (Suc (next_id s))\<rparr>"
  have c2: "counts_map (stack ?s2)" using st1(2) by simp
  from stack_push_exact [OF c2, of "[?u]"] obtain st3 where
    st3: "stack_push ?s2 [?u] = Inr (?s2\<lparr>stack := st3\<rparr>)" "counts_map st3"
      "p_stack st3 = rest @ [?u]"
    using st1(3) by auto
  have c3: "counts_map (stack (?s2\<lparr>stack := st3\<rparr>))" using st3(2) by simp
  from stack_push_exact [OF c3, of "[?u]"] obtain st4 where
    st4: "stack_push (?s2\<lparr>stack := st3\<rparr>) [?u] = Inr (?s2\<lparr>stack := st4\<rparr>)" "counts_map st4"
      "p_stack st4 = rest @ [?u, ?u]"
    using st3(3) by auto
  have "ROT_TWO_unpack s = Inr (?s2\<lparr>stack := st4\<rparr>)"
    using st1(1) st3(1) st4(1) by (simp add: ROT_TWO_unpack_def Let_def)
  with st4 show ?thesis by (simp add: map_of_dict_setitem)
qed

lemma ROT_TWO_swap_result:
  assumes "counts_map (stack s)" and "p_stack (stack s) = rest @ [a, b]"
  shows "\<exists>s'. ROT_TWO_swap s = Inr s' \<and> p_stack (stack s') = rest @ [b, a]
          \<and> next_id s' = next_id s \<and> unpacks s' = unpacks s"
proof -
  from stack_pop_count_exact [OF assms(1), of rest "[a, b]"] assms(2)
  obtain st1 where st1: "stack_pop_count s 2 = Inr ([a, b], s\<lparr>stack := st1\<rparr>)"
      "counts_map st1" "p_stack st1 = rest"
    by auto
  have c1: "counts_map (stack (s\<lparr>stack := st1\<rparr>))" using st1(2) by simp
  from stack_push_exact [OF c1, of "[b, a]"] obtain st2 where
    st2: "stack_push (s\<lparr>stack := st1\<rparr>) [b, a] = Inr (s\<lparr>stack := st2\<rparr>)"
      "p_stack st2 = rest @ [b, a]"
    using st1(3) by auto
  have "ROT_TWO_swap s = Inr (s\<lparr>stack := st2\<rparr>)"
    using st1(1) st2(1) by (simp add: ROT_TWO_swap_def)
  with st2 show ?thesis by simp
qed

text \<open>
  Claim C9. The name \<^verbatim>\<open>ROT_TWO\<close> is bound twice in the class body, and the handler that
  \<^verbatim>\<open>run\<close> finds is the second one. On a stack that ends in \<open>a\<close>, \<open>b\<close> it pops both,
  makes a \<^verbatim>\<open>PyTuple\<close> of \<open>[a, b]\<close> (the list that \<^verbatim>\<open>pop(2)\<close> returns: the order in which
  the two were on the stack, the deeper one first), makes one \<^verbatim>\<open>Unpack\<close> of length 2
  around it and pushes that object twice; no statement is added. The first handler
  would have left \<open>b\<close>, \<open>a\<close> on the stack; the handler that runs never does what it does.
\<close>

theorem ROT_TWO_is_unpack:
  assumes "Stack_ok (stack s)" and "p_stack (stack s) = rest @ [a, b]"
  shows "dispatch B ''ROT_TWO'' s None = ROT_TWO_unpack s
       \<and> (\<exists>s'. ROT_TWO_unpack s = Inr s'
            \<and> p_stack (stack s') = rest @ [Unpack (Suc (next_id s)), Unpack (Suc (next_id s))]
            \<and> map_of (unpacks s') (Suc (next_id s))
                = Some \<lparr>unpack_val = PyTuple (next_id s) [a, b], unpack_length = 2,
                        unpack_star_index = None, unpack_dests = []\<rparr>
            \<and> suite s' = suite s \<and> Stack_ok (stack s'))
       \<and> (\<exists>s''. ROT_TWO_swap s = Inr s'' \<and> p_stack (stack s'') = rest @ [b, a])
       \<and> dispatch B ''ROT_TWO'' s None \<noteq> ROT_TWO_swap s"
proof -
  from assms(1) have cm: "counts_map (stack s)" by (simp add: Stack_ok_counts_map)
  have d: "dispatch B ''ROT_TWO'' s None = ROT_TWO_unpack s"
    by (simp add: dispatch_def class_dict_ROT_TWO call_handler_def)
  from ROT_TWO_unpack_result [OF cm assms(2)] obtain s' where
    s': "ROT_TWO_unpack s = Inr s'"
      "p_stack (stack s') = rest @ [Unpack (Suc (next_id s)), Unpack (Suc (next_id s))]"
      "map_of (unpacks s') (Suc (next_id s))
         = Some \<lparr>unpack_val = PyTuple (next_id s) [a, b], unpack_length = 2,
                 unpack_star_index = None, unpack_dests = []\<rparr>"
      "suite s' = suite s" "counts_map (stack s')" "next_id s' = Suc (Suc (next_id s))"
    by blast
  from ROT_TWO_swap_result [OF cm assms(2)] obtain s'' where
    s'': "ROT_TWO_swap s = Inr s''" "p_stack (stack s'') = rest @ [b, a]"
      "next_id s'' = next_id s"
    by blast
  have ne: "ROT_TWO_unpack s \<noteq> ROT_TWO_swap s"
  proof
    assume "ROT_TWO_unpack s = ROT_TWO_swap s"
    with s'(1) s''(1) have "s' = s''" by simp
    with s'(6) s''(3) show False by simp
  qed
  from d s' s'' ne show ?thesis by (auto simp: Stack_ok_counts_map)
qed

theorem ROT_TWO_is_unpack_witness:
  "Stack_ok (stack ex_dec) \<and> p_stack (stack ex_dec) = [] @ [PyName 1 ''b'', PyName 2 ''a'']
   \<and> (\<exists>s'. dispatch ex_builtins ''ROT_TWO'' ex_dec None = Inr s'
          \<and> p_stack (stack s') = [Unpack 11, Unpack 11]
          \<and> map_of (unpacks s') 11
              = Some \<lparr>unpack_val = PyTuple 10 [PyName 1 ''b'', PyName 2 ''a''], unpack_length = 2,
                      unpack_star_index = None, unpack_dests = []\<rparr>)"
proof -
  have ok: "Stack_ok (stack ex_dec)"
    by (simp add: Stack_ok_def ex_dec_def occurrences_def)
  have st: "p_stack (stack ex_dec) = [] @ [PyName 1 ''b'', PyName 2 ''a'']"
    by (simp add: ex_dec_def)
  have n: "next_id ex_dec = 10" by (simp add: ex_dec_def)
  from ROT_TWO_is_unpack [OF ok st, of ex_builtins] ok st n show ?thesis
    by (auto simp: eval_nat_numeral)
qed

lemma RAISE_VARARGS_zero:
  "RAISE_VARARGS B s 0 = Inr (s\<lparr>suite := suite s @ [SimpleStatement ''raise'']\<rparr>)"
  by (simp add: RAISE_VARARGS_def write_line_def)

lemma RAISE_VARARGS_one:
  assumes "Stack_ok (stack s)" and "p_stack (stack s) = rest @ [exception]"
    and "str_obj B exception = Inr es"
  shows "\<exists>s'. RAISE_VARARGS B s 1 = Inr s' \<and> p_stack (stack s') = rest
          \<and> suite s' = suite s @ [SimpleStatement (''raise '' @ es)]"
proof -
  from assms(1) have cm: "counts_map (stack s)" by (simp add: Stack_ok_counts_map)
  from stack_pop_exact [OF cm assms(2)] assms(3) show ?thesis
    by (auto simp: RAISE_VARARGS_def write_line_def)
qed

lemma RAISE_VARARGS_other:
  "argc \<noteq> 0 \<Longrightarrow> argc \<noteq> 1 \<Longrightarrow> argc \<noteq> 2 \<Longrightarrow> RAISE_VARARGS B s argc = Inl NameError"
  by (simp add: RAISE_VARARGS_def)

text \<open>
  Claim C7 and the code. With the argument 0 the handler adds a bare \<^verbatim>\<open>raise\<close> and pops
  nothing, with 1 it pops one object and adds \<^verbatim>\<open>raise\<close> with its string, and with an
  argument other than 0, 1 and 2 it raises (the three lemmas above). With the argument
  2 the claim asks for two objects popped and a \<^verbatim>\<open>raise ... from ...\<close> statement; the
  handler raises an exception in every state and adds no statement. On a stack that
  holds two names it pops one of them and raises TypeError.
\<close>

theorem RAISE_VARARGS_two_raises:
  "(\<exists>e. RAISE_VARARGS B s 2 = Inl e)
   \<and> RAISE_VARARGS ex_builtins ex_dec 2 = Inl TypeError"
proof
  show "\<exists>e. RAISE_VARARGS B s 2 = Inl e"
    by (auto simp: RAISE_VARARGS_def split: sum.splits option.splits prod.splits)
  show "RAISE_VARARGS ex_builtins ex_dec 2 = Inl TypeError"
    by (simp add: RAISE_VARARGS_def ex_dec_def stack_pop_def pop1_def get_count_def
        set_count_def Let_def)
qed

subsection \<open>Unpacking assignments\<close>

lemma efoldl_append:
  "efoldl f s (xs @ ys) = (case efoldl f s xs of Inl e \<Rightarrow> Inl e | Inr s' \<Rightarrow> efoldl f s' ys)"
  by (induction xs arbitrary: s) (auto split: sum.splits)

lemma push_loop_exact:
  "counts_map (stack s) \<Longrightarrow>
     \<exists>st'. efoldl (\<lambda>s' i. stack_push s' [u]) s xs = Inr (s\<lparr>stack := st'\<rparr>) \<and> counts_map st'
          \<and> p_stack st' = p_stack (stack s) @ replicate (length xs) u"
proof (induction xs arbitrary: s)
  case Nil
  then show ?case by (auto intro: exI [of _ "stack s"])
next
  case (Cons x xs)
  from stack_push_exact [OF Cons.prems, of "[u]"] obtain st1 where
    st1: "stack_push s [u] = Inr (s\<lparr>stack := st1\<rparr>)" "counts_map st1"
      "p_stack st1 = p_stack (stack s) @ [u]"
    by blast
  have c1: "counts_map (stack (s\<lparr>stack := st1\<rparr>))" using st1(2) by simp
  from Cons.IH [OF c1] st1 show ?case by (auto simp: replicate_app_Cons_same)
qed

lemma UNPACK_SEQUENCE_result:
  assumes "counts_map (stack s)" and "p_stack (stack s) = rest @ [v]"
  shows "\<exists>s1. UNPACK_SEQUENCE s (int n) = Inr s1 \<and> counts_map (stack s1)
          \<and> p_stack (stack s1) = rest @ replicate n (Unpack (next_id s))
          \<and> map_of (unpacks s1) (next_id s)
              = Some \<lparr>unpack_val = v, unpack_length = int n,
                      unpack_star_index = None, unpack_dests = []\<rparr>
          \<and> suite s1 = suite s \<and> assignment_chain s1 = assignment_chain s
          \<and> next_id s1 = Suc (next_id s)"
proof -
  from stack_pop_exact [OF assms] obtain st1 where
    st1: "stack_pop s = Inr (v, s\<lparr>stack := st1\<rparr>)" "counts_map st1" "p_stack st1 = rest"
    by blast
  let ?s2 = "s\<lparr>stack := st1,
               unpacks := dict_setitem (unpacks s) (next_id s)
                 \<lparr>unpack_val = v, unpack_length = int n,
                  unpack_star_index = None, unpack_dests = []\<rparr>,
               next_id := Suc (next_id s)\<rparr>"
  have c2: "counts_map (stack ?s2)" using st1(2) by simp
  from push_loop_exact [OF c2, of "Unpack (next_id s)" "[0..<n]"] obtain st' where
    st': "efoldl (\<lambda>s' i. stack_push s' [Unpack (next_id s)]) ?s2 [0..<n] = Inr (?s2\<lparr>stack := st'\<rparr>)"
      "counts_map st'" "p_stack st' = rest @ replicate n (Unpack (next_id s))"
    using st1(3) by auto
  have "UNPACK_SEQUENCE s (int n) = Inr (?s2\<lparr>stack := st'\<rparr>)"
    using st1(1) st'(1) by (simp add: UNPACK_SEQUENCE_def Let_def)
  with st' show ?thesis by (simp add: map_of_dict_setitem)
qed

lemma store_pending:
  assumes "counts_map (stack t)"
    and "p_stack (stack t) = rest @ replicate (Suc j) (Unpack uid)"
    and "map_of (unpacks t) uid
           = Some \<lparr>unpack_val = v, unpack_length = N, unpack_star_index = None, unpack_dests = ds\<rparr>"
    and "int (length ds) + 1 \<noteq> N"
  shows "\<exists>t'. store (Suc m) t d = Inr t' \<and> counts_map (stack t')
          \<and> p_stack (stack t') = rest @ replicate j (Unpack uid)
          \<and> map_of (unpacks t') uid
              = Some \<lparr>unpack_val = v, unpack_length = N, unpack_star_index = None,
                      unpack_dests = ds @ [d]\<rparr>
          \<and> suite t' = suite t \<and> assignment_chain t' = assignment_chain t
          \<and> next_id t' = next_id t"
proof -
  have "p_stack (stack t) = (rest @ replicate j (Unpack uid)) @ [Unpack uid]"
    using assms(2) by (simp add: replicate_append_same)
  from stack_pop_exact [OF assms(1) this] obtain st1 where
    st1: "stack_pop t = Inr (Unpack uid, t\<lparr>stack := st1\<rparr>)" "counts_map st1"
      "p_stack st1 = rest @ replicate j (Unpack uid)"
    by blast
  have "store (Suc m) t d
          = Inr (t\<lparr>stack := st1,
                  unpacks := dict_setitem (unpacks t) uid
                    \<lparr>unpack_val = v, unpack_length = N, unpack_star_index = None,
                     unpack_dests = ds @ [d]\<rparr>\<rparr>)"
    using st1(1) assms(3,4) by (simp add: store_def Let_def)
  with st1 show ?thesis by (simp add: map_of_dict_setitem)
qed

lemma obj_store_PyExpr:
  "is_PyExpr v \<Longrightarrow> obj_store (Suc m) v s d = Inr (PyExpr_store v s d)"
  by (cases v) simp_all

lemma store_final:
  assumes "counts_map (stack t)"
    and "p_stack (stack t) = rest @ [Unpack uid]"
    and "map_of (unpacks t) uid
           = Some \<lparr>unpack_val = v, unpack_length = N, unpack_star_index = None, unpack_dests = ds\<rparr>"
    and "int (length ds) + 1 = N"
    and "is_PyExpr v"
  shows "\<exists>t'. store (Suc (Suc m)) t d = Inr t' \<and> counts_map (stack t')
          \<and> p_stack (stack t') = rest
          \<and> (if occurrences rest (oid v) = 0
              then suite t' = suite t
                     @ [AssignStatement (assignment_chain t @ [PyTuple (next_id t) (ds @ [d]), v])]
                   \<and> assignment_chain t' = []
              else suite t' = suite t
                   \<and> assignment_chain t' = assignment_chain t @ [PyTuple (next_id t) (ds @ [d])])"
proof -
  from stack_pop_exact [OF assms(1,2)] obtain st1 where
    st1: "stack_pop t = Inr (Unpack uid, t\<lparr>stack := st1\<rparr>)" "counts_map st1" "p_stack st1 = rest"
    by blast
  let ?s2 = "t\<lparr>stack := st1,
               unpacks := dict_setitem (unpacks t) uid
                 \<lparr>unpack_val = v, unpack_length = N, unpack_star_index = None,
                  unpack_dests = ds @ [d]\<rparr>\<rparr>"
  have c2: "counts_map (stack ?s2)" using st1(2) by simp
  from stack_push_exact [OF c2, of "[v]"] obtain st3 where
    st3: "stack_push ?s2 [v] = Inr (?s2\<lparr>stack := st3\<rparr>)" "counts_map st3"
      "p_stack st3 = rest @ [v]"
    using st1(3) by auto
  let ?s4 = "?s2\<lparr>stack := st3, next_id := Suc (next_id t)\<rparr>"
  have c4: "counts_map (stack ?s4)" and p4: "p_stack (stack ?s4) = rest @ [v]"
    using st3 by simp_all
  from stack_pop_exact [OF c4 p4] obtain st5 where
    st5: "stack_pop ?s4 = Inr (v, ?s4\<lparr>stack := st5\<rparr>)" "counts_map st5" "p_stack st5 = rest"
    by blast
  let ?tup = "PyTuple (next_id t) (ds @ [d])"
  have "store (Suc (Suc m)) t d = obj_store (Suc m) v (?s4\<lparr>stack := st5\<rparr>) ?tup"
    using st1(1) assms(3,4) st3(1) st5(1) by (simp add: store_def Let_def)
  also have "\<dots> = Inr (PyExpr_store v (?s4\<lparr>stack := st5\<rparr>) ?tup)"
    by (rule obj_store_PyExpr [OF assms(5)])
  finally have r: "store (Suc (Suc m)) t d = Inr (PyExpr_store v (?s4\<lparr>stack := st5\<rparr>) ?tup)" .
  have g: "get_count st5 v = occurrences rest (oid v)"
    using counts_map_get_count [OF st5(2), of v] st5(3) by simp
  have nn: "0 \<le> occurrences rest (oid v)" by simp
  show ?thesis
  proof (cases "occurrences rest (oid v) = 0")
    case True
    with r g st5 show ?thesis
      by (simp add: PyExpr_store_def contains_def Let_def)
  next
    case False
    with nn have "occurrences rest (oid v) > 0" by linarith
    with False r g st5 show ?thesis
      by (simp add: PyExpr_store_def contains_def Let_def)
  qed
qed

lemma stores_prefix:
  assumes "counts_map (stack s1)"
    and "p_stack (stack s1) = rest @ replicate (length ds) (Unpack uid)"
    and "map_of (unpacks s1) uid
           = Some \<lparr>unpack_val = v, unpack_length = int (length ds), unpack_star_index = None,
                   unpack_dests = []\<rparr>"
    and "k < length ds"
  shows "\<exists>sk. efoldl (store (Suc m)) s1 (take k ds) = Inr sk \<and> counts_map (stack sk)
          \<and> p_stack (stack sk) = rest @ replicate (length ds - k) (Unpack uid)
          \<and> map_of (unpacks sk) uid
              = Some \<lparr>unpack_val = v, unpack_length = int (length ds), unpack_star_index = None,
                      unpack_dests = take k ds\<rparr>
          \<and> suite sk = suite s1 \<and> assignment_chain sk = assignment_chain s1
          \<and> next_id sk = next_id s1"
  using assms(4)
proof (induction k)
  case 0
  with assms(1-3) show ?case by simp
next
  case (Suc k)
  then have k: "k < length ds" by simp
  from Suc.IH [OF k] obtain sk where
    sk: "efoldl (store (Suc m)) s1 (take k ds) = Inr sk" "counts_map (stack sk)"
      "p_stack (stack sk) = rest @ replicate (length ds - k) (Unpack uid)"
      "map_of (unpacks sk) uid
         = Some \<lparr>unpack_val = v, unpack_length = int (length ds), unpack_star_index = None,
                 unpack_dests = take k ds\<rparr>"
      "suite sk = suite s1" "assignment_chain sk = assignment_chain s1" "next_id sk = next_id s1"
    by blast
  have len: "length ds - k = Suc (length ds - Suc k)" using Suc.prems by simp
  have ne: "int (length (take k ds)) + 1 \<noteq> int (length ds)" using Suc.prems by simp
  from store_pending [OF sk(2) sk(3) [unfolded len] sk(4) ne, of m "ds ! k"] obtain t' where
    t': "store (Suc m) sk (ds ! k) = Inr t'" "counts_map (stack t')"
      "p_stack (stack t') = rest @ replicate (length ds - Suc k) (Unpack uid)"
      "map_of (unpacks t') uid
         = Some \<lparr>unpack_val = v, unpack_length = int (length ds), unpack_star_index = None,
                 unpack_dests = take k ds @ [ds ! k]\<rparr>"
      "suite t' = suite sk" "assignment_chain t' = assignment_chain sk" "next_id t' = next_id sk"
    by blast
  have tk: "take (Suc k) ds = take k ds @ [ds ! k]" using k by (rule take_Suc_conv_app_nth)
  have "efoldl (store (Suc m)) s1 (take (Suc k) ds) = Inr t'"
    using sk(1) t'(1) by (simp add: tk efoldl_append)
  with t' sk tk show ?case by simp
qed

text \<open>
  Claim C3, as the code has it. \<^verbatim>\<open>UNPACK_SEQUENCE\<close> with argument \<open>N > 0\<close> on a stack
  whose top \<open>v\<close> is an expression makes one \<^verbatim>\<open>Unpack\<close> object and pushes it \<open>N\<close> times.
  Each of the following \<open>N\<close> calls of \<^verbatim>\<open>store\<close> takes one of these slots and adds one
  destination; after fewer than \<open>N\<close> calls the suite is as it was. The \<open>N\<close>th call
  pushes \<open>v\<close> back and stores the tuple of the \<open>N\<close> destinations into it: when \<open>v\<close> is
  not otherwise on the stack, exactly one assignment statement is added, whose chain is
  the pending chain, the tuple and \<open>v\<close>; when \<open>v\<close> is still on the stack (a chained
  assignment), the \<open>N\<close>th call adds no statement and the tuple joins the pending chain.
  Two nested calls of \<^verbatim>\<open>store\<close> are enough for this.
\<close>

theorem Unpack_store_completes:
  assumes "Stack_ok (stack s)" and "p_stack (stack s) = rest @ [v]" and "is_PyExpr v"
    and "ds \<noteq> []" and "2 \<le> m"
  shows "\<exists>s1. UNPACK_SEQUENCE s (int (length ds)) = Inr s1
          \<and> p_stack (stack s1) = rest @ replicate (length ds) (Unpack (next_id s))
          \<and> (\<forall>k < length ds. \<exists>sk. efoldl (store m) s1 (take k ds) = Inr sk
                \<and> suite sk = suite s
                \<and> p_stack (stack sk) = rest @ replicate (length ds - k) (Unpack (next_id s)))
          \<and> (\<exists>s'. efoldl (store m) s1 ds = Inr s' \<and> p_stack (stack s') = rest
                \<and> (if occurrences rest (oid v) = 0
                    then suite s' = suite s
                           @ [AssignStatement
                                (assignment_chain s @ [PyTuple (Suc (next_id s)) ds, v])]
                         \<and> assignment_chain s' = []
                    else suite s' = suite s
                         \<and> assignment_chain s' = assignment_chain s @ [PyTuple (Suc (next_id s)) ds]))"
proof -
  from assms(5) obtain m' where m: "m = Suc (Suc m')"
    by (metis Suc_le_D numeral_2_eq_2 add_2_eq_Suc le_Suc_ex)
  from assms(1) have cm: "counts_map (stack s)" by (simp add: Stack_ok_counts_map)
  from UNPACK_SEQUENCE_result [OF cm assms(2), of "length ds"] obtain s1 where
    s1: "UNPACK_SEQUENCE s (int (length ds)) = Inr s1" "counts_map (stack s1)"
      "p_stack (stack s1) = rest @ replicate (length ds) (Unpack (next_id s))"
      "map_of (unpacks s1) (next_id s)
         = Some \<lparr>unpack_val = v, unpack_length = int (length ds),
                 unpack_star_index = None, unpack_dests = []\<rparr>"
      "suite s1 = suite s" "assignment_chain s1 = assignment_chain s"
      "next_id s1 = Suc (next_id s)"
    by blast
  note pre = stores_prefix [OF s1(2,3,4), where m = "Suc m'"]
  have a: "\<forall>k < length ds. \<exists>sk. efoldl (store m) s1 (take k ds) = Inr sk
                \<and> suite sk = suite s
                \<and> p_stack (stack sk) = rest @ replicate (length ds - k) (Unpack (next_id s))"
  proof (intro allI impI)
    fix k assume "k < length ds"
    from pre [OF this] s1(5) show "\<exists>sk. efoldl (store m) s1 (take k ds) = Inr sk
                \<and> suite sk = suite s
                \<and> p_stack (stack sk) = rest @ replicate (length ds - k) (Unpack (next_id s))"
      unfolding m by auto
  qed
  from assms(4) obtain ds' d where ds: "ds = ds' @ [d]" by (metis rev_exhaust)
  have kl: "length ds' < length ds" by (simp add: ds)
  from pre [OF kl] obtain sk where
    sk: "efoldl (store (Suc (Suc m'))) s1 ds' = Inr sk" "counts_map (stack sk)"
      "p_stack (stack sk) = rest @ [Unpack (next_id s)]"
      "map_of (unpacks sk) (next_id s)
         = Some \<lparr>unpack_val = v, unpack_length = int (length ds), unpack_star_index = None,
                 unpack_dests = ds'\<rparr>"
      "suite sk = suite s1" "assignment_chain sk = assignment_chain s1" "next_id sk = next_id s1"
    by (auto simp: ds)
  have eq: "int (length ds') + 1 = int (length ds)" by (simp add: ds)
  from store_final [OF sk(2,3,4) eq assms(3), of m' d] obtain t' where
    t': "store (Suc (Suc m')) sk d = Inr t'" "p_stack (stack t') = rest"
      "if occurrences rest (oid v) = 0
       then suite t' = suite sk
              @ [AssignStatement (assignment_chain sk @ [PyTuple (next_id sk) (ds' @ [d]), v])]
            \<and> assignment_chain t' = []
       else suite t' = suite sk
            \<and> assignment_chain t' = assignment_chain sk @ [PyTuple (next_id sk) (ds' @ [d])]"
    by blast
  have "efoldl (store m) s1 ds = Inr t'"
    using sk(1) t'(1) by (simp add: ds m efoldl_append)
  with t'(2,3) sk(5,6,7) s1(5,6,7) ds
  have b: "\<exists>s'. efoldl (store m) s1 ds = Inr s' \<and> p_stack (stack s') = rest
                \<and> (if occurrences rest (oid v) = 0
                    then suite s' = suite s
                           @ [AssignStatement
                                (assignment_chain s @ [PyTuple (Suc (next_id s)) ds, v])]
                         \<and> assignment_chain s' = []
                    else suite s' = suite s
                         \<and> assignment_chain s' = assignment_chain s @ [PyTuple (Suc (next_id s)) ds])"
    by (auto split: if_splits)
  from s1(1,3) a b show ?thesis by blast
qed

theorem Unpack_store_completes_witness:
  "Stack_ok (stack ex_dec) \<and> p_stack (stack ex_dec) = [PyName 1 ''b''] @ [PyName 2 ''a'']
   \<and> is_PyExpr (PyName 2 ''a'')
   \<and> (\<exists>s1. UNPACK_SEQUENCE ex_dec 2 = Inr s1
          \<and> p_stack (stack s1) = [PyName 1 ''b'', Unpack 10, Unpack 10]
          \<and> (\<exists>sk. efoldl (store 2) s1 [PyName 5 ''x''] = Inr sk \<and> suite sk = [])
          \<and> (\<exists>s'. efoldl (store 2) s1 [PyName 5 ''x'', PyName 6 ''y''] = Inr s'
                \<and> p_stack (stack s') = [PyName 1 ''b'']
                \<and> suite s' = [AssignStatement
                     [PyTuple 11 [PyName 5 ''x'', PyName 6 ''y''], PyName 2 ''a'']]))"
proof -
  let ?ds = "[PyName 5 ''x'', PyName 6 ''y'']"
  let ?rest = "[PyName 1 ''b'']"
  let ?v = "PyName 2 ''a''"
  have ok: "Stack_ok (stack ex_dec)"
    by (simp add: Stack_ok_def ex_dec_def occurrences_def)
  have st: "p_stack (stack ex_dec) = ?rest @ [?v]"
    by (simp add: ex_dec_def)
  have e: "is_PyExpr ?v" by simp
  have n: "next_id ex_dec = 10" "suite ex_dec = []" "assignment_chain ex_dec = []"
    by (simp_all add: ex_dec_def)
  have o: "occurrences ?rest (oid ?v) = 0"
    by (simp add: occurrences_def)
  have l: "int (length ?ds) = 2" "replicate (length ?ds) (Unpack 10) = [Unpack 10, Unpack 10]"
    "take 1 ?ds = [PyName 5 ''x'']" "(1::nat) < length ?ds"
    by simp_all
  from Unpack_store_completes [OF ok st e, of ?ds 2]
  obtain s1 where
    a: "UNPACK_SEQUENCE ex_dec (int (length ?ds)) = Inr s1"
    and b: "p_stack (stack s1) = ?rest @ replicate (length ?ds) (Unpack (next_id ex_dec))"
    and c: "\<forall>k < length ?ds. \<exists>sk. efoldl (store 2) s1 (take k ?ds) = Inr sk
              \<and> suite sk = suite ex_dec
              \<and> p_stack (stack sk)
                  = ?rest @ replicate (length ?ds - k) (Unpack (next_id ex_dec))"
    and d: "\<exists>s'. efoldl (store 2) s1 ?ds = Inr s' \<and> p_stack (stack s') = ?rest
              \<and> (if occurrences ?rest (oid ?v) = 0
                  then suite s' = suite ex_dec
                         @ [AssignStatement
                              (assignment_chain ex_dec @ [PyTuple (Suc (next_id ex_dec)) ?ds, ?v])]
                       \<and> assignment_chain s' = []
                  else suite s' = suite ex_dec
                       \<and> assignment_chain s' = assignment_chain ex_dec
                            @ [PyTuple (Suc (next_id ex_dec)) ?ds])"
    by blast
  from a l(1) have a': "UNPACK_SEQUENCE ex_dec 2 = Inr s1" by simp
  from b n(1) l(2) have b': "p_stack (stack s1) = [PyName 1 ''b'', Unpack 10, Unpack 10]"
    by simp
  from c l(4) have "\<exists>sk. efoldl (store 2) s1 (take 1 ?ds) = Inr sk \<and> suite sk = suite ex_dec"
    by blast
  with l(3) n(2) have c': "\<exists>sk. efoldl (store 2) s1 [PyName 5 ''x''] = Inr sk \<and> suite sk = []"
    by simp
  from d obtain s' where
    d1: "efoldl (store 2) s1 ?ds = Inr s'" "p_stack (stack s') = ?rest"
    and d2: "if occurrences ?rest (oid ?v) = 0
             then suite s' = suite ex_dec
                    @ [AssignStatement
                         (assignment_chain ex_dec @ [PyTuple (Suc (next_id ex_dec)) ?ds, ?v])]
                  \<and> assignment_chain s' = []
             else suite s' = suite ex_dec
                  \<and> assignment_chain s' = assignment_chain ex_dec
                       @ [PyTuple (Suc (next_id ex_dec)) ?ds]"
    by blast
  from d2 o n have "suite s' = [AssignStatement [PyTuple 11 ?ds, ?v]]" by simp
  with d1 have d': "\<exists>s'. efoldl (store 2) s1 ?ds = Inr s' \<and> p_stack (stack s') = ?rest
      \<and> suite s' = [AssignStatement [PyTuple 11 ?ds, ?v]]"
    by blast
  from ok st e a' b' c' d' show ?thesis by blast
qed

text \<open>
  Claim C3 as stated fails. For \<^verbatim>\<open>a, b = x = u\<close> the stack holds the object \<open>u\<close> twice
  when \<^verbatim>\<open>UNPACK_SEQUENCE 2\<close> runs. After the two calls of \<^verbatim>\<open>store\<close> no statement has
  been added: \<open>u\<close> is still on the stack, and the tuple waits in the assignment chain.
\<close>

theorem Unpack_store_chained_counterexample:
  "map_sum id suite (unpack_and_store 2 ex_dup [PyName 5 ''x'', PyName 6 ''y'']) = Inr []
   \<and> map_sum id assignment_chain (unpack_and_store 2 ex_dup [PyName 5 ''x'', PyName 6 ''y''])
       = Inr [PyTuple 11 [PyName 5 ''x'', PyName 6 ''y'']]
   \<and> map_sum id (\<lambda>s. p_stack (stack s))
         (unpack_and_store 2 ex_dup [PyName 5 ''x'', PyName 6 ''y'']) = Inr [PyName 3 ''u'']"
  by code_simp

subsection \<open>Pending short-circuit conditions\<close>

lemma popjump_loop_Nil: "popjump_loop jaddr [] jcond n = Inr ([], jcond, n)"
  by (subst popjump_loop.simps) simp

lemma popjump_loop_snoc:
  "popjump_loop jaddr (pending @ [(t, a, c)]) jcond n =
     (case at_or_before jaddr a of
        Inl e \<Rightarrow> Inl e
      | Inr True \<Rightarrow> Inr (pending @ [(t, a, c)], jcond, n)
      | Inr False \<Rightarrow>
          (case merge_cond t c jcond n of (jcond1, n1) \<Rightarrow> popjump_loop jaddr pending jcond1 n1))"
  by (subst popjump_loop.simps) (simp split: sum.splits bool.splits prod.splits)

lemma popjump_loop_spec:
  "\<exists>kept popped jc n'.
     popjump_loop (Some j) pending jcond n = Inr (kept, jc, n')
     \<and> pending = kept @ popped
     \<and> (\<forall>e \<in> set popped. at_or_before (Some j) (fst (snd e)) = Inr False)
     \<and> (kept \<noteq> [] \<longrightarrow> at_or_before (Some j) (fst (snd (last kept))) = Inr True)
     \<and> (jc, n') = foldr (\<lambda>(t, a, c) (x, m). merge_cond t c x m) popped (jcond, n)"
proof (induction pending arbitrary: jcond n rule: rev_induct)
  case Nil
  show ?case by (simp add: popjump_loop_Nil)
next
  case (snoc e pending)
  obtain t a c where e: "e = (t, a, c)" by (cases e)
  show ?case
  proof (cases "Address_lt j a \<or> Address_eq j a")
    case True
    then have ab: "at_or_before (Some j) a = Inr True" by (simp add: at_or_before_def)
    have "popjump_loop (Some j) (pending @ [e]) jcond n = Inr (pending @ [e], jcond, n)"
      using ab by (simp add: e popjump_loop_snoc)
    moreover have "pending @ [e] = (pending @ [e]) @ []" by simp
    moreover have "(jcond, n) = foldr (\<lambda>(t, a, c) (x, m). merge_cond t c x m) [] (jcond, n)"
      by simp
    ultimately show ?thesis using ab e
      by (intro exI [of _ "pending @ [e]"] exI [of _ "[]"] exI [of _ jcond] exI [of _ n]) simp
  next
    case False
    then have ab: "at_or_before (Some j) a = Inr False" by (simp add: at_or_before_def)
    obtain jc1 n1 where m: "merge_cond t c jcond n = (jc1, n1)" by (cases "merge_cond t c jcond n")
    from snoc.IH [of jc1 n1] obtain kept popped jc n' where
      ih: "popjump_loop (Some j) pending jc1 n1 = Inr (kept, jc, n')"
        "pending = kept @ popped"
        "\<forall>e \<in> set popped. at_or_before (Some j) (fst (snd e)) = Inr False"
        "kept \<noteq> [] \<longrightarrow> at_or_before (Some j) (fst (snd (last kept))) = Inr True"
        "(jc, n') = foldr (\<lambda>(t, a, c) (x, m). merge_cond t c x m) popped (jc1, n1)"
      by blast
    have "popjump_loop (Some j) (pending @ [e]) jcond n = Inr (kept, jc, n')"
      using ab m ih(1) by (simp add: e popjump_loop_snoc)
    moreover have "pending @ [e] = kept @ (popped @ [e])" using ih(2) by simp
    moreover have "\<forall>x \<in> set (popped @ [e]). at_or_before (Some j) (fst (snd x)) = Inr False"
      using ih(3) ab e by simp
    moreover have "(jc, n') = foldr (\<lambda>(t, a, c) (x, m). merge_cond t c x m) (popped @ [e]) (jcond, n)"
      using ih(5) m e by simp
    ultimately show ?thesis using ih(4)
      by (intro exI [of _ kept] exI [of _ "popped @ [e]"] exI [of _ jc] exI [of _ n']) simp
  qed
qed

lemma merge_cond_same_class:
  "merge_cond t c (PyBinaryOp i (obj_maker t) l r) m
     = (PyBinaryOp (Suc m) (obj_maker t) (PyBinaryOp m (obj_maker t) c l) r, Suc (Suc m))"
  by (simp add: merge_cond_def)

lemma merge_cond_other:
  "\<not> (\<exists>i l r. x = PyBinaryOp i (obj_maker t) l r) \<Longrightarrow>
     merge_cond t c x m = (PyBinaryOp m (obj_maker t) c x, Suc m)"
  by (cases x) (auto simp: merge_cond_def)

text \<open>
  Claim C2, as the code has it. With \<open>j\<close> the target after the adjustment for an
  else-jump, \<^verbatim>\<open>push_popjump\<close> returns, and it has popped exactly the pending entries
  \<open>popped\<close> at the top of \<^verbatim>\<open>popjump_stack\<close> for which the test
  \<^verbatim>\<open>jaddr < addr or jaddr == addr\<close> is False: the loop stops at the first entry whose
  target is at or after the new target, so an entry is popped while the new target is
  strictly after its own. The popped conditions are combined from the top down by
  \<open>merge_cond\<close>, and the result is pushed with the new truthiness and the target \<open>j\<close>.
  When the condition so far is of the class that the popped entry asks for,
  \<open>merge_cond\<close> builds \<^verbatim>\<open>op(op(cond, jcond.left), jcond.right)\<close>; otherwise
  \<^verbatim>\<open>op(cond, jcond)\<close>.
\<close>

theorem push_popjump_merges:
  assumes "popjump_target T jaddr = Inr (Some j)"
  shows "(\<exists>kept popped jc n'.
            push_popjump T s jt jaddr jcond
              = Inr (s\<lparr>popjump_stack := kept @ [(jt, Some j, jc)], next_id := n'\<rparr>)
            \<and> popjump_stack s = kept @ popped
            \<and> (\<forall>e \<in> set popped. at_or_before (Some j) (fst (snd e)) = Inr False)
            \<and> (kept \<noteq> [] \<longrightarrow> at_or_before (Some j) (fst (snd (last kept))) = Inr True)
            \<and> (jc, n') = foldr (\<lambda>(t, a, c) (x, m). merge_cond t c x m) popped
                            (jcond, next_id s))
       \<and> (\<forall>t c i l r m. merge_cond t c (PyBinaryOp i (obj_maker t) l r) m
             = (PyBinaryOp (Suc m) (obj_maker t) (PyBinaryOp m (obj_maker t) c l) r, Suc (Suc m)))
       \<and> (\<forall>t c x m. \<not> (\<exists>i l r. x = PyBinaryOp i (obj_maker t) l r)
             \<longrightarrow> merge_cond t c x m = (PyBinaryOp m (obj_maker t) c x, Suc m))"
proof (intro conjI)
  from popjump_loop_spec [of j "popjump_stack s" jcond "next_id s"]
  obtain kept popped jc n' where
    l: "popjump_loop (Some j) (popjump_stack s) jcond (next_id s) = Inr (kept, jc, n')"
      "popjump_stack s = kept @ popped"
      "\<forall>e \<in> set popped. at_or_before (Some j) (fst (snd e)) = Inr False"
      "kept \<noteq> [] \<longrightarrow> at_or_before (Some j) (fst (snd (last kept))) = Inr True"
      "(jc, n') = foldr (\<lambda>(t, a, c) (x, m). merge_cond t c x m) popped (jcond, next_id s)"
    by blast
  have "push_popjump T s jt jaddr jcond
          = Inr (s\<lparr>popjump_stack := kept @ [(jt, Some j, jc)], next_id := n'\<rparr>)"
    using assms l(1) by (simp add: push_popjump_def)
  with l(2-5) show "\<exists>kept popped jc n'.
            push_popjump T s jt jaddr jcond
              = Inr (s\<lparr>popjump_stack := kept @ [(jt, Some j, jc)], next_id := n'\<rparr>)
            \<and> popjump_stack s = kept @ popped
            \<and> (\<forall>e \<in> set popped. at_or_before (Some j) (fst (snd e)) = Inr False)
            \<and> (kept \<noteq> [] \<longrightarrow> at_or_before (Some j) (fst (snd (last kept))) = Inr True)
            \<and> (jc, n') = foldr (\<lambda>(t, a, c) (x, m). merge_cond t c x m) popped
                            (jcond, next_id s)"
    by blast
next
  show "\<forall>t c i l r m. merge_cond t c (PyBinaryOp i (obj_maker t) l r) m
             = (PyBinaryOp (Suc m) (obj_maker t) (PyBinaryOp m (obj_maker t) c l) r, Suc (Suc m))"
    by (simp add: merge_cond_same_class)
next
  show "\<forall>t c x m. \<not> (\<exists>i l r. x = PyBinaryOp i (obj_maker t) l r)
             \<longrightarrow> merge_cond t c x m = (PyBinaryOp m (obj_maker t) c x, Suc m)"
    using merge_cond_other by blast
qed

lemma push_popjump_None:
  "popjump_target T jaddr = Inr None \<Longrightarrow>
     push_popjump T s jt jaddr jcond
       = (if popjump_stack s = [] then Inr (s\<lparr>popjump_stack := [(jt, None, jcond)]\<rparr>)
          else Inl TypeError)"
proof (cases "popjump_stack s" rule: rev_cases)
  case Nil
  assume "popjump_target T jaddr = Inr None"
  with Nil show ?thesis by (simp add: push_popjump_def popjump_loop_Nil)
next
  case (snoc pending e)
  assume "popjump_target T jaddr = Inr None"
  with snoc show ?thesis
    by (cases e) (simp add: push_popjump_def popjump_loop_snoc at_or_before_def)
qed

lemma ex_target: "popjump_target py32 (Some ex_jf_addr2) = Inr (Some ex_jf_addr2)"
  by (simp add: popjump_target_def Address_getitem_def Code_getitem_def Address_init_def
      ebind_def is_else_jump_def ex_jf_addr2_def ex_jf_code_def ex_jf_seq_def)

theorem push_popjump_merges_witness:
  "popjump_target py32 (Some ex_jf_addr2) = Inr (Some ex_jf_addr2)
   \<and> push_popjump py32 (ex_pending ex_jf_addr1) False (Some ex_jf_addr2)
       (PyBinaryOp 8 PyBooleanAnd (PyName 5 ''x'') (PyName 6 ''y''))
     = Inr (ex_dec\<lparr>popjump_stack :=
              [(False, Some ex_jf_addr2,
                PyBinaryOp 11 PyBooleanAnd
                  (PyBinaryOp 10 PyBooleanAnd (PyName 7 ''p'') (PyName 5 ''x''))
                  (PyName 6 ''y''))],
            next_id := 12\<rparr>)"
proof -
  let ?jc = "PyBinaryOp 8 PyBooleanAnd (PyName 5 ''x'') (PyName 6 ''y'')"
  have ab: "at_or_before (Some ex_jf_addr2) (Some ex_jf_addr1) = Inr False"
    by (simp add: at_or_before_def Address_lt_def Address_eq_def ex_jf_addr1_def ex_jf_addr2_def)
  from push_popjump_merges [OF ex_target, of "ex_pending ex_jf_addr1" False ?jc]
  obtain kept popped jc n' where
    r: "push_popjump py32 (ex_pending ex_jf_addr1) False (Some ex_jf_addr2) ?jc
          = Inr (ex_pending ex_jf_addr1
                   \<lparr>popjump_stack := kept @ [(False, Some ex_jf_addr2, jc)], next_id := n'\<rparr>)"
    and k: "popjump_stack (ex_pending ex_jf_addr1) = kept @ popped"
    and p: "kept \<noteq> [] \<longrightarrow> at_or_before (Some ex_jf_addr2) (fst (snd (last kept))) = Inr True"
    and f: "(jc, n') = foldr (\<lambda>(t, a, c) (x, m). merge_cond t c x m) popped
                            (?jc, next_id (ex_pending ex_jf_addr1))"
    by blast
  from k have "kept = [] \<and> popped = [(False, Some ex_jf_addr1, PyName 7 ''p'')]
             \<or> kept = [(False, Some ex_jf_addr1, PyName 7 ''p'')] \<and> popped = []"
    by (auto simp: ex_pending_def Cons_eq_append_conv)
  with p ab have kp: "kept = []" "popped = [(False, Some ex_jf_addr1, PyName 7 ''p'')]"
    by auto
  from f kp have "jc = PyBinaryOp 11 PyBooleanAnd
                  (PyBinaryOp 10 PyBooleanAnd (PyName 7 ''p'') (PyName 5 ''x'')) (PyName 6 ''y'')"
    and "n' = 12"
    by (simp_all add: merge_cond_def obj_maker_def ex_pending_def ex_dec_def)
  with r kp ex_target show ?thesis by (simp add: ex_pending_def)
qed

text \<open>
  Claim C2 as stated fails in the direction of the comparison. A pending entry whose
  target is the new target (so the new target is at or before it) is not popped: both
  entries stay. A pending entry whose target is before the new target is popped and
  combined.
\<close>

theorem push_popjump_direction_counterexample:
  "at_or_before (Some ex_jf_addr2) (Some ex_jf_addr2) = Inr True
   \<and> map_sum id popjump_stack
       (push_popjump py32 (ex_pending ex_jf_addr2) False (Some ex_jf_addr2) (PyName 8 ''q''))
     = Inr [(False, Some ex_jf_addr2, PyName 7 ''p''), (False, Some ex_jf_addr2, PyName 8 ''q'')]
   \<and> at_or_before (Some ex_jf_addr2) (Some ex_jf_addr1) = Inr False
   \<and> map_sum id popjump_stack
       (push_popjump py32 (ex_pending ex_jf_addr1) False (Some ex_jf_addr2) (PyName 8 ''q''))
     = Inr [(False, Some ex_jf_addr2,
             PyBinaryOp 10 PyBooleanAnd (PyName 7 ''p'') (PyName 8 ''q''))]"
proof -
  have t: "popjump_target py32 (Some ex_jf_addr2) = Inr (Some ex_jf_addr2)"
    by (simp add: popjump_target_def Address_getitem_def Code_getitem_def Address_init_def
        ebind_def is_else_jump_def ex_jf_addr2_def ex_jf_code_def ex_jf_seq_def)
  have a: "at_or_before (Some ex_jf_addr2) (Some ex_jf_addr2) = Inr True"
    by (simp add: at_or_before_def Address_lt_def Address_eq_def)
  have b: "at_or_before (Some ex_jf_addr2) (Some ex_jf_addr1) = Inr False"
    by (simp add: at_or_before_def Address_lt_def Address_eq_def ex_jf_addr1_def ex_jf_addr2_def)
  have l1: "popjump_loop (Some ex_jf_addr2) [(False, Some ex_jf_addr2, PyName 7 ''p'')]
              (PyName 8 ''q'') 10
            = Inr ([(False, Some ex_jf_addr2, PyName 7 ''p'')], PyName 8 ''q'', 10)"
    using a popjump_loop_snoc [of "Some ex_jf_addr2" "[]" False "Some ex_jf_addr2"
        "PyName 7 ''p''" "PyName 8 ''q''" 10]
    by simp
  have l2: "popjump_loop (Some ex_jf_addr2) [(False, Some ex_jf_addr1, PyName 7 ''p'')]
              (PyName 8 ''q'') 10
            = Inr ([], PyBinaryOp 10 PyBooleanAnd (PyName 7 ''p'') (PyName 8 ''q''), 11)"
    using b popjump_loop_snoc [of "Some ex_jf_addr2" "[]" False "Some ex_jf_addr1"
        "PyName 7 ''p''" "PyName 8 ''q''" 10]
    by (simp add: merge_cond_def obj_maker_def popjump_loop_Nil)
  from t a b l1 l2 show ?thesis
    by (simp add: push_popjump_def ex_pending_def ex_dec_def)
qed

subsection \<open>Chained comparisons\<close>

lemma compare_items_append:
  "length rs = length xs \<Longrightarrow>
     compare_items i (xs @ ys) (rs @ rs')
       = compare_items i xs rs @ compare_items (i + length xs) ys rs'"
proof (induction xs arbitrary: i rs)
  case Nil
  then show ?case by simp
next
  case (Cons x xs)
  then obtain r rs1 where rs: "rs = r # rs1" "length rs1 = length xs" by (cases rs) auto
  from Cons.IH [OF rs(2), of "Suc i"] show ?case by (simp add: rs)
qed

lemma compare_items_parity:
  "even i = even i' \<Longrightarrow> compare_items i xs rs = compare_items i' xs rs"
proof (induction xs arbitrary: i i' rs)
  case Nil
  then show ?case by simp
next
  case (Cons x xs)
  show ?case
  proof (cases rs)
    case Nil
    then show ?thesis by simp
  next
    case (Cons r rs1)
    have "compare_items (Suc i) xs rs1 = compare_items (Suc i') xs rs1"
      using Cons.prems by (intro Cons.IH) simp
    with Cons Cons.prems show ?thesis by simp
  qed
qed

lemma esequence_append:
  "esequence (as @ bs)
     = (case esequence as of
          Inl e \<Rightarrow> Inl e
        | Inr xs \<Rightarrow> (case esequence bs of Inl e \<Rightarrow> Inl e | Inr ys \<Rightarrow> Inr (xs @ ys)))"
proof (induction as)
  case Nil
  then show ?case by (simp split: sum.splits)
next
  case (Cons a as)
  then show ?case by (cases a) (simp_all split: sum.splits)
qed

lemma esequence_length: "esequence rs = Inr xs \<Longrightarrow> length xs = length rs"
proof (induction rs arbitrary: xs)
  case Nil
  then show ?case by simp
next
  case (Cons r rs)
  then show ?case by (cases r) (auto split: sum.splits)
qed

lemma compare_items_length:
  "length rs = length xs \<Longrightarrow> length (compare_items i xs rs) = length xs"
proof (induction xs arbitrary: i rs)
  case Nil
  then show ?case by simp
next
  case (Cons x xs)
  then show ?case by (cases rs) auto
qed

lemma join_Cons: "join sep (x # xs) = x @ (if xs = [] then [] else sep @ join sep xs)"
  by (cases xs) simp_all

lemma join_append:
  "xs \<noteq> [] \<Longrightarrow> join sep (xs @ ys) = join sep xs @ (if ys = [] then [] else sep @ join sep ys)"
proof (induction xs)
  case Nil
  then show ?case by simp
next
  case (Cons x xs)
  show ?case
  proof (cases "xs = []")
    case True
    then show ?thesis by (simp add: join_Cons)
  next
    case False
    with Cons.IH show ?thesis by (simp add: join_Cons)
  qed
qed

lemma str_PyCompare:
  "str_obj B (PyCompare k cl)
     = (case esequence (compare_items 0 cl (map (str_obj B) cl)) of
          Inl e \<Rightarrow> Inl e
        | Inr items \<Rightarrow> join_items '' '' items)"
  by (simp add: ebind_def)

lemma chain_renders:
  assumes ev: "even (length xs)"
    and sl: "str_obj B (PyCompare i (xs @ [b])) = Inr sl"
    and sb: "wrap (precedence b') (\<lambda>p. p \<le> 0) (str_obj B b') = Inr sb"
    and sr: "str_obj B (PyCompare j (b' # ys)) = Inr (sb @ rest)"
  shows "str_obj B (PyCompare n (xs @ [b] @ ys)) = Inr (sl @ rest)"
proof -
  let ?L = "xs @ [b]"
  let ?itL = "compare_items 0 ?L (map (str_obj B) ?L)"
  let ?itY = "compare_items 1 ys (map (str_obj B) ys)"
  from sl have "(case esequence ?itL of Inl e \<Rightarrow> Inl e
                  | Inr items \<Rightarrow> join_items '' '' items) = Inr sl"
    by (simp only: str_PyCompare)
  then obtain li where li: "esequence ?itL = Inr li" "join_items '' '' li = Inr sl"
    by (cases "esequence ?itL") simp_all
  have "length ?itL = length ?L" by (rule compare_items_length) simp
  with esequence_length [OF li(1)] have lne: "li \<noteq> []" by auto
  from li(2) have ln: "None \<notin> set li" and sl': "sl = join '' '' (map the li)"
    by (auto simp: join_items_def split: if_splits)
  have itR: "compare_items 0 (b' # ys) (map (str_obj B) (b' # ys)) = Inr (Some sb) # ?itY"
    using sb by simp
  from sr have "(case esequence (Inr (Some sb) # ?itY) of Inl e \<Rightarrow> Inl e
                  | Inr items \<Rightarrow> join_items '' '' items) = Inr (sb @ rest)"
    by (simp only: str_PyCompare itR)
  then obtain yi where yi: "esequence ?itY = Inr yi"
      "join_items '' '' (Some sb # yi) = Inr (sb @ rest)"
    by (cases "esequence ?itY") simp_all
  from yi(2) have yn: "None \<notin> set yi" and "sb @ rest = join '' '' (sb # map the yi)"
    by (auto simp: join_items_def split: if_splits)
  then have rest: "rest = (if yi = [] then [] else '' '' @ join '' '' (map the yi))"
    by (simp add: join_Cons)
  have par: "compare_items (0 + length ?L) ys (map (str_obj B) ys) = ?itY"
    using ev by (intro compare_items_parity) simp
  have "compare_items 0 (?L @ ys) (map (str_obj B) (?L @ ys)) = ?itL @ ?itY"
    using compare_items_append [of "map (str_obj B) ?L" ?L 0 ys "map (str_obj B) ys"] par
    by (simp del: compare_items.simps)
  then have "esequence (compare_items 0 (?L @ ys) (map (str_obj B) (?L @ ys))) = Inr (li @ yi)"
    using li(1) yi(1) by (simp add: esequence_append del: compare_items.simps)
  moreover have "join_items '' '' (li @ yi) = Inr (sl @ rest)"
    using ln yn lne sl' rest by (simp add: join_items_def join_append)
  ultimately have "str_obj B (PyCompare n (?L @ ys)) = Inr (sl @ rest)"
    by (simp only: str_PyCompare sum.case)
  then show ?thesis by simp
qed

lemma and_combine_chains:
  assumes "py_eq b' b"
  shows "and_combine n (PyCompare i (xs @ [b])) (PyCompare j (b' # ys))
           = Inr (PyCompare n (xs @ [b] @ ys))
       \<and> (even (length xs) \<and> str_obj B (PyCompare i (xs @ [b])) = Inr sl
            \<and> wrap (precedence b') (\<lambda>p. p \<le> 0) (str_obj B b') = Inr sb
            \<and> str_obj B (PyCompare j (b' # ys)) = Inr (sb @ rest)
          \<longrightarrow> str_obj B (PyCompare n (xs @ [b] @ ys)) = Inr (sl @ rest))"
proof
  show "and_combine n (PyCompare i (xs @ [b])) (PyCompare j (b' # ys))
           = Inr (PyCompare n (xs @ [b] @ ys))"
    using assms by (simp add: and_combine_def PyCompare_extends_def PyCompare_chain_def)
  show "even (length xs) \<and> str_obj B (PyCompare i (xs @ [b])) = Inr sl
            \<and> wrap (precedence b') (\<lambda>p. p \<le> 0) (str_obj B b') = Inr sb
            \<and> str_obj B (PyCompare j (b' # ys)) = Inr (sb @ rest)
          \<longrightarrow> str_obj B (PyCompare n (xs @ [b] @ ys)) = Inr (sl @ rest)"
    using chain_renders by blast
qed

lemma and_combine_not_extending:
  "\<not> py_eq b' b \<Longrightarrow>
     and_combine n (PyCompare i (xs @ [b])) (PyCompare j (b' # ys))
       = Inr (PyBinaryOp n PyBooleanAnd (PyCompare i (xs @ [b])) (PyCompare j (b' # ys)))"
  by (simp add: and_combine_def PyCompare_extends_def)

lemma set_count_p_stack: "set_count st v n = Inr st1 \<Longrightarrow> p_stack st1 = p_stack st"
  by (auto simp: set_count_def split: if_splits sum.splits)

lemma push_p_stack:
  "fst (push st vs) = Inr u \<Longrightarrow> p_stack (snd (push st vs)) = p_stack st @ vs"
proof (induction vs arbitrary: st)
  case Nil
  then show ?case by simp
next
  case (Cons v vs)
  from Cons.prems obtain st1 where st1: "set_count st v (get_count st v + 1) = Inr st1"
    by (cases "set_count st v (get_count st v + 1)") auto
  with Cons.prems have "fst (push (st1\<lparr>p_stack := p_stack st1 @ [v]\<rparr>) vs) = Inr u" by simp
  from Cons.IH [OF this] st1 set_count_p_stack [OF st1] show ?case by simp
qed

lemma stack_push_p_stack:
  "stack_push s vs = Inr s' \<Longrightarrow> p_stack (stack s') = p_stack (stack s) @ vs"
  using push_p_stack [of "stack s" vs]
  by (cases "push (stack s) vs") (auto simp: stack_push_def split: sum.splits)

lemma ebind_Inr: "ebind m f = Inr y \<Longrightarrow> \<exists>x. m = Inr x \<and> f x = Inr y"
  by (cases m) (simp_all add: ebind_def)

text \<open>
  Two names compare equal when they are different objects: the comparisons of
  \<^verbatim>\<open>a < b and b < c\<close>, where \<^verbatim>\<open>b\<close> is loaded twice, are chained as well.
\<close>

lemma and_combine_equal_names:
  "py_eq (PyName 5 ''b'') (PyName 2 ''b'')
   \<and> and_combine 8 ex_left ex_right
       = Inr (PyCompare 8 [PyName 1 ''a'', PyStr 0 ''<'', PyName 2 ''b'', PyStr 0 ''<'',
                           PyName 6 ''c''])
   \<and> str_obj ex_builtins ex_left = Inr ''a < b''
   \<and> str_obj ex_builtins ex_right = Inr ''b < c''
   \<and> str_obj ex_builtins
         (PyCompare 8 [PyName 1 ''a'', PyStr 0 ''<'', PyName 2 ''b'', PyStr 0 ''<'',
                       PyName 6 ''c'']) = Inr ''a < b < c''
   \<and> str_obj ex_builtins (PyBinaryOp 8 PyBooleanAnd ex_left ex_right) = Inr ''a < b and b < c''"
proof -
  have e: "py_eq (PyName 5 ''b'') (PyName 2 ''b'')" by (simp add: py_eq_def)
  have l: "str_obj ex_builtins (PyCompare 4 ([PyName 1 ''a'', PyStr 0 ''<''] @ [PyName 2 ''b'']))
             = Inr ''a < b''"
    by (simp add: ebind_def wrap_def join_items_def)
  have w: "wrap (precedence (PyName 5 ''b'')) (\<lambda>p. p \<le> 0) (str_obj ex_builtins (PyName 5 ''b''))
             = Inr ''b''"
    by (simp add: wrap_def)
  have r: "str_obj ex_builtins (PyCompare 7 (PyName 5 ''b'' # [PyStr 0 ''<'', PyName 6 ''c'']))
             = Inr (''b'' @ '' < c'')"
    by (simp add: ebind_def wrap_def join_items_def)
  have ev: "even (length [PyName 1 ''a'', PyStr 0 ''<''])" by simp
  have a: "str_obj ex_builtins (PyBinaryOp 8 PyBooleanAnd ex_left ex_right)
             = Inr ''a < b and b < c''"
    by (simp add: ex_left_def ex_right_def ebind_def wrap_def join_items_def)
  from and_combine_chains [OF e, of 8 4 "[PyName 1 ''a'', PyStr 0 ''<'']" 7
      "[PyStr 0 ''<'', PyName 6 ''c'']" ex_builtins "''a < b''" "''b''" "'' < c''"]
    e l w r ev a
  show ?thesis by (simp add: ex_left_def ex_right_def)
qed

lemma stack_pop_top:
  assumes "counts_map (stack s)" and "p_stack (stack s) = rest @ [v]"
  shows "stack_pop s = Inr (v, s\<lparr>stack := snd (pop1 (stack s))\<rparr>)
       \<and> counts_map (snd (pop1 (stack s))) \<and> p_stack (snd (pop1 (stack s))) = rest"
  using counts_map_pop1 [OF assms(1)] assms(2)
  by (cases "pop1 (stack s)") (auto simp: stack_pop_def)

lemma popjump_loop_kept:
  assumes "pending = [] \<or> at_or_before jaddr (fst (snd (last pending))) = Inr True"
  shows "popjump_loop jaddr pending jcond n = Inr (pending, jcond, n)"
proof (cases pending rule: rev_cases)
  case Nil
  then show ?thesis by (simp add: popjump_loop_Nil)
next
  case (snoc ps e)
  obtain t a c where e: "e = (t, a, c)" by (cases e)
  from assms snoc e have "at_or_before jaddr a = Inr True" by simp
  then show ?thesis by (simp add: snoc e popjump_loop_snoc)
qed

lemma push_pop_popjump_kept:
  assumes "popjump_target T jaddr = Inr (Some j)"
    and "popjump_stack s = []
         \<or> at_or_before (Some j) (fst (snd (last (popjump_stack s)))) = Inr True"
  shows "\<exists>s2. push_popjump T s jt jaddr v = Inr s2 \<and> pop_popjump s2 = Inr (v, s)"
proof -
  have l: "popjump_loop (Some j) (popjump_stack s) v (next_id s)
             = Inr (popjump_stack s, v, next_id s)"
    by (rule popjump_loop_kept [OF assms(2)])
  let ?s2 = "s\<lparr>popjump_stack := popjump_stack s @ [(jt, Some j, v)], next_id := next_id s\<rparr>"
  have "push_popjump T s jt jaddr v = Inr ?s2"
    using assms(1) l by (simp add: push_popjump_def)
  moreover have "pop_popjump ?s2 = Inr (v, s)"
    by (simp add: pop_popjump_def)
  ultimately show ?thesis by blast
qed

text \<open>
  Claim C6. \<^verbatim>\<open>JUMP_IF_FALSE_OR_POP\<close> at the address \<open>a\<close>, with any run of the right
  operand: the top of the stack is a comparison whose last operand is \<open>b\<close>, no pending
  condition is merged into it, and the run from \<^verbatim>\<open>addr[1]\<close> to the end of the right
  operand leaves on top of the shared stack a comparison whose first operand \<open>b'\<close> equals
  \<open>b\<close> (Python's \<^verbatim>\<open>==\<close>: the same name, the same constant or the same object). Then the
  handler returns the end address and has replaced that top by one new \<^verbatim>\<open>PyCompare\<close>
  whose list is the left list followed by the right list without its first operand,
  and by no \<^verbatim>\<open>PyBooleanAnd\<close>; it adds no statement. For a left list of odd length
  (operands and operators in turn) the new top renders as the string of the left
  comparison followed by what follows the first operand in the string of the right
  one: \<^verbatim>\<open>a < b\<close> and \<^verbatim>\<open>b < c\<close> give \<^verbatim>\<open>a < b < c\<close>, where a \<^verbatim>\<open>PyBooleanAnd\<close> of the
  two would give \<^verbatim>\<open>a < b and b < c\<close>.
\<close>

theorem JUMP_IF_FALSE_OR_POP_chains:
  assumes jump: "Address_jump T a = Inr (Some e)"
    and ok: "Stack_ok (stack s)"
    and top: "p_stack (stack s) = rest @ [PyCompare i (xs @ [b])]"
    and target: "popjump_target T (Some e) = Inr (Some j)"
    and pending: "popjump_stack s = []
         \<or> at_or_before (Some j) (fst (snd (last (popjump_stack s)))) = Inr True"
    and end1: "and_end_addr T (Some e) = Inr end_addr1"
    and start: "Address_getitem a 1 = Inr (Some start_addr)"
    and run: "run start_addr end_addr1
                \<lparr>stack = snd (pop1 (stack s)), suite = [], assignment_chain = [],
                 popjump_stack = [], unpacks = unpacks s, next_id = next_id s\<rparr> = Inr d"
    and okd: "Stack_ok (stack d)"
    and topd: "p_stack (stack d) = rest' @ [PyCompare k (b' # ys)]"
    and eq: "py_eq b' b"
  shows "\<exists>s'. JUMP_IF_FALSE_OR_POP T run s a = Inr (s', end_addr1)
          \<and> p_stack (stack s') = rest' @ [PyCompare (next_id d) (xs @ [b] @ ys)]
          \<and> Stack_ok (stack s')
          \<and> suite s' = suite s \<and> popjump_stack s' = popjump_stack s
          \<and> (\<forall>B sl sb tl.
                even (length xs) \<and> str_obj B (PyCompare i (xs @ [b])) = Inr sl
                \<and> wrap (precedence b') (\<lambda>p. p \<le> 0) (str_obj B b') = Inr sb
                \<and> str_obj B (PyCompare k (b' # ys)) = Inr (sb @ tl)
              \<longrightarrow> str_obj B (last (p_stack (stack s'))) = Inr (sl @ tl))"
proof -
  let ?left = "PyCompare i (xs @ [b])"
  let ?right = "PyCompare k (b' # ys)"
  let ?merged = "PyCompare (next_id d) (xs @ [b] @ ys)"
  from ok have cm: "counts_map (stack s)" by (simp add: Stack_ok_counts_map)
  let ?s1 = "s\<lparr>stack := snd (pop1 (stack s))\<rparr>"
  from stack_pop_top [OF cm top] have 1: "stack_pop s = Inr (?left, ?s1)" by simp
  have pend1: "popjump_stack ?s1 = []
         \<or> at_or_before (Some j) (fst (snd (last (popjump_stack ?s1)))) = Inr True"
    using pending by simp
  from push_pop_popjump_kept [OF target pend1, of True ?left] obtain s2 where
    2: "push_popjump T ?s1 True (Some e) ?left = Inr s2" and
    3: "pop_popjump s2 = Inr (?left, ?s1)"
    by blast
  have sub: "\<lparr>stack = stack ?s1, suite = [], assignment_chain = [], popjump_stack = [],
              unpacks = unpacks ?s1, next_id = next_id ?s1\<rparr>
            = \<lparr>stack = snd (pop1 (stack s)), suite = [], assignment_chain = [],
               popjump_stack = [], unpacks = unpacks s, next_id = next_id s\<rparr>"
    by simp
  let ?s4 = "?s1\<lparr>stack := stack d, unpacks := unpacks d, next_id := next_id d\<rparr>"
  from okd have cmd: "counts_map (stack ?s4)" by (simp add: Stack_ok_counts_map)
  have top4: "p_stack (stack ?s4) = rest' @ [?right]" using topd by simp
  let ?s5 = "?s4\<lparr>stack := snd (pop1 (stack ?s4))\<rparr>"
  from stack_pop_top [OF cmd top4] have
    5: "stack_pop ?s4 = Inr (?right, ?s5)" and
    c5: "counts_map (stack ?s5)" and p5: "p_stack (stack ?s5) = rest'"
    by simp_all
  have n5: "next_id ?s5 = next_id d" by simp
  have 6: "and_combine (next_id ?s5) ?left ?right = Inr ?merged"
    using and_combine_chains [OF eq, of "next_id d" i xs k ys] by simp
  let ?s6 = "?s5\<lparr>next_id := Suc (next_id ?s5)\<rparr>"
  have c6: "counts_map (stack ?s6)" using c5 by simp
  from stack_push_exact [OF c6, of "[?merged]"] obtain st7 where
    7: "stack_push ?s6 [?merged] = Inr (?s6\<lparr>stack := st7\<rparr>)" and
    c7: "counts_map st7" and p7: "p_stack st7 = rest' @ [?merged]"
    using p5 by auto
  have h: "JUMP_IF_FALSE_OR_POP T run s a = Inr (?s6\<lparr>stack := st7\<rparr>, end_addr1)"
    unfolding JUMP_IF_FALSE_OR_POP_def
    using jump 1 2 3 end1 start run 5 6 7
    by (simp add: ebind_def sub del: and_combine_def)
  have r: "\<forall>B sl sb tl.
                even (length xs) \<and> str_obj B ?left = Inr sl
                \<and> wrap (precedence b') (\<lambda>p. p \<le> 0) (str_obj B b') = Inr sb
                \<and> str_obj B ?right = Inr (sb @ tl)
              \<longrightarrow> str_obj B ?merged = Inr (sl @ tl)"
    using chain_renders by blast
  show ?thesis
  proof (intro exI conjI)
    show "JUMP_IF_FALSE_OR_POP T run s a = Inr (?s6\<lparr>stack := st7\<rparr>, end_addr1)" by (rule h)
    show "p_stack (stack (?s6\<lparr>stack := st7\<rparr>)) = rest' @ [?merged]" using p7 by simp
    show "Stack_ok (stack (?s6\<lparr>stack := st7\<rparr>))" using c7 by (simp add: Stack_ok_counts_map)
    show "suite (?s6\<lparr>stack := st7\<rparr>) = suite s" by simp
    show "popjump_stack (?s6\<lparr>stack := st7\<rparr>) = popjump_stack s" by simp
    show "\<forall>B sl sb tl.
                even (length xs) \<and> str_obj B ?left = Inr sl
                \<and> wrap (precedence b') (\<lambda>p. p \<le> 0) (str_obj B b') = Inr sb
                \<and> str_obj B ?right = Inr (sb @ tl)
              \<longrightarrow> str_obj B (last (p_stack (stack (?s6\<lparr>stack := st7\<rparr>)))) = Inr (sl @ tl)"
      using r p7 by simp
  qed
qed


theorem JUMP_IF_FALSE_OR_POP_chains_witness:
  "Code_init py32 2 ex_chain_bytes = Inr ex_chain_code
   \<and> Address_init ex_chain_code 5 = Inr ex_chain_jump
   \<and> Address_jump py32 ex_chain_jump = Inr (Some ex_chain_target)
   \<and> Stack_ok (stack ex_chain_dec)
   \<and> popjump_target py32 (Some ex_chain_target) = Inr (Some ex_chain_target)
   \<and> and_end_addr py32 (Some ex_chain_target) = Inr (Some ex_chain_end)
   \<and> Address_getitem ex_chain_jump 1 = Inr (Some ex_chain_start)
   \<and> py_eq (PyName 2 ''b'') (PyName 2 ''b'')
   \<and> (\<exists>s'. JUMP_IF_FALSE_OR_POP py32 ex_chain_run ex_chain_dec ex_chain_jump
               = Inr (s', Some ex_chain_end)
          \<and> p_stack (stack s')
              = [PyCompare 11 [PyName 1 ''a'', PyStr 0 ''<'', PyName 2 ''b'', PyStr 0 ''<'',
                               PyName 6 ''c'']]
          \<and> suite s' = []
          \<and> str_obj ex_builtins (last (p_stack (stack s'))) = Inr ''a < b < c'')
   \<and> str_obj ex_builtins
         (PyBinaryOp 11 PyBooleanAnd ex_chain_left
            (PyCompare 10 [PyName 2 ''b'', PyStr 0 ''<'', PyName 6 ''c'']))
       = Inr ''a < b and b < c''"
proof -
  let ?xs = "[PyName 1 ''a'', PyStr 0 ''<'']"
  let ?b = "PyName 2 ''b''"
  let ?ys = "[PyStr 0 ''<'', PyName 6 ''c'']"
  let ?d = "\<lparr>stack = \<lparr>p_stack = [PyCompare 10 (?b # ?ys)], p_counts = [(10, 1)]\<rparr>,
            suite = [], assignment_chain = [], popjump_stack = [], unpacks = [],
            next_id = 11\<rparr>"
  have init: "Code_init py32 2 ex_chain_bytes = Inr ex_chain_code" by code_simp
  have addr: "Address_init ex_chain_code 5 = Inr ex_chain_jump" by code_simp
  have jump: "Address_jump py32 ex_chain_jump = Inr (Some ex_chain_target)" by code_simp
  have ok: "Stack_ok (stack ex_chain_dec)"
    by (simp add: Stack_ok_def ex_chain_dec_def ex_chain_left_def occurrences_def)
  have top: "p_stack (stack ex_chain_dec) = [?b] @ [PyCompare 4 (?xs @ [?b])]"
    by (simp add: ex_chain_dec_def ex_chain_left_def)
  have target: "popjump_target py32 (Some ex_chain_target) = Inr (Some ex_chain_target)"
    by code_simp
  have pending: "popjump_stack ex_chain_dec = []
      \<or> at_or_before (Some ex_chain_target)
           (fst (snd (last (popjump_stack ex_chain_dec)))) = Inr True"
    by (simp add: ex_chain_dec_def)
  have end1: "and_end_addr py32 (Some ex_chain_target) = Inr (Some ex_chain_end)"
    by code_simp
  have start: "Address_getitem ex_chain_jump 1 = Inr (Some ex_chain_start)" by code_simp
  have run: "ex_chain_run ex_chain_start (Some ex_chain_end)
               \<lparr>stack = snd (pop1 (stack ex_chain_dec)), suite = [], assignment_chain = [],
                popjump_stack = [], unpacks = unpacks ex_chain_dec,
                next_id = next_id ex_chain_dec\<rparr> = Inr ?d"
    by code_simp
  have okd: "Stack_ok (stack ?d)" by (simp add: Stack_ok_def occurrences_def)
  have topd: "p_stack (stack ?d) = [] @ [PyCompare 10 (?b # ?ys)]" by simp
  have eq: "py_eq ?b ?b" by (simp add: py_eq_def)
  have ev: "even (length ?xs)" by simp
  have sl: "str_obj ex_builtins (PyCompare 4 (?xs @ [?b])) = Inr ''a < b''"
    by (simp add: ebind_def wrap_def join_items_def)
  have sb: "wrap (precedence ?b) (\<lambda>p. p \<le> 0) (str_obj ex_builtins ?b) = Inr ''b''"
    by (simp add: wrap_def)
  have sr: "str_obj ex_builtins (PyCompare 10 (?b # ?ys)) = Inr (''b'' @ '' < c'')"
    by (simp add: ebind_def wrap_def join_items_def)
  have bool: "str_obj ex_builtins
         (PyBinaryOp 11 PyBooleanAnd ex_chain_left (PyCompare 10 (?b # ?ys)))
       = Inr ''a < b and b < c''"
    by (simp add: ex_chain_left_def ebind_def wrap_def join_items_def)
  from JUMP_IF_FALSE_OR_POP_chains
         [where run = ex_chain_run, OF jump ok top target pending end1 start run okd topd eq]
  obtain s' where
    h: "JUMP_IF_FALSE_OR_POP py32 ex_chain_run ex_chain_dec ex_chain_jump
          = Inr (s', Some ex_chain_end)"
    and p: "p_stack (stack s') = [] @ [PyCompare (next_id ?d) (?xs @ [?b] @ ?ys)]"
    and su: "suite s' = suite ex_chain_dec"
    and r: "\<forall>B sl sb tl.
              even (length ?xs) \<and> str_obj B (PyCompare 4 (?xs @ [?b])) = Inr sl
              \<and> wrap (precedence ?b) (\<lambda>p. p \<le> 0) (str_obj B ?b) = Inr sb
              \<and> str_obj B (PyCompare 10 (?b # ?ys)) = Inr (sb @ tl)
            \<longrightarrow> str_obj B (last (p_stack (stack s'))) = Inr (sl @ tl)"
    by blast
  from r ev sl sb sr have "str_obj ex_builtins (last (p_stack (stack s'))) = Inr (''a < b'' @ '' < c'')"
    by blast
  then have s: "str_obj ex_builtins (last (p_stack (stack s'))) = Inr ''a < b < c''" by simp
  from p have p': "p_stack (stack s')
              = [PyCompare 11 [PyName 1 ''a'', PyStr 0 ''<'', PyName 2 ''b'', PyStr 0 ''<'',
                               PyName 6 ''c'']]"
    by simp
  from su have su': "suite s' = []" by (simp add: ex_chain_dec_def)
  from h p' su' s have ex: "\<exists>s'. JUMP_IF_FALSE_OR_POP py32 ex_chain_run ex_chain_dec ex_chain_jump
               = Inr (s', Some ex_chain_end)
          \<and> p_stack (stack s')
              = [PyCompare 11 [PyName 1 ''a'', PyStr 0 ''<'', PyName 2 ''b'', PyStr 0 ''<'',
                               PyName 6 ''c'']]
          \<and> suite s' = []
          \<and> str_obj ex_builtins (last (p_stack (stack s'))) = Inr ''a < b < c''"
    by blast
  from init addr jump ok target end1 start eq ex bool show ?thesis by blast
qed

end
